theory Spec2Isabelle
  imports Main
begin

section \<open>Strings and the JavaScript built-ins the parsers call\<close>

text \<open>
  A JavaScript string is modelled as a \<^typ>\<open>string\<close>: each \<^typ>\<open>char\<close> stands for one
  code unit below 256. The built-ins are written out for those code units, following
  ECMAScript (\<open>String.prototype.trim\<close>, \<open>endsWith\<close>, \<open>slice\<close>, \<open>toLowerCase\<close>,
  \<open>BigInt\<close>) and viem (\<open>isHex\<close>).
\<close>

datatype js_error = SyntaxError | TypeError | Error string

definition is_ws :: "char \<Rightarrow> bool" where
  \<comment> \<open>WhiteSpace and LineTerminator below 256: TAB, LF, VT, FF, CR, SP, NBSP.\<close>
  "is_ws c = ((of_char c :: nat) \<in> {9, 10, 11, 12, 13, 32, 160})"

definition trim :: "string \<Rightarrow> string" where
  "trim s = rev (dropWhile is_ws (rev (dropWhile is_ws s)))"

definition endsWith_n :: "string \<Rightarrow> bool" where
  \<comment> \<open>\<open>s.endsWith("n")\<close>\<close>
  "endsWith_n s = (s \<noteq> [] \<and> last s = CHR ''n'')"

definition toLowerCase_char :: "char \<Rightarrow> char" where
  \<comment> \<open>The upper-case letters below 256 are A-Z and 0xC0-0xDE without 0xD7.\<close>
  "toLowerCase_char c =
     (let n = (of_char c :: nat)
      in if (65 \<le> n \<and> n \<le> 90) \<or> (192 \<le> n \<and> n \<le> 222 \<and> n \<noteq> 215)
         then char_of (n + 32) else c)"

definition toLowerCase :: "string \<Rightarrow> string" where
  "toLowerCase s = map toLowerCase_char s"

definition digit_of :: "char \<Rightarrow> nat option" where
  \<comment> \<open>The value of a digit \<open>0-9\<close>, \<open>a-f\<close>, \<open>A-F\<close>.\<close>
  "digit_of c =
     (let n = (of_char c :: nat)
      in if 48 \<le> n \<and> n \<le> 57 then Some (n - 48)
         else if 97 \<le> n \<and> n \<le> 102 then Some (n - 87)
         else if 65 \<le> n \<and> n \<le> 70 then Some (n - 55)
         else None)"

definition is_radix_digit :: "nat \<Rightarrow> char \<Rightarrow> bool" where
  "is_radix_digit b c = (case digit_of c of None \<Rightarrow> False | Some d \<Rightarrow> d < b)"

definition radix_value :: "nat \<Rightarrow> string \<Rightarrow> nat" where
  \<comment> \<open>The mathematical value of a digit string, most significant digit first.\<close>
  "radix_value b ds = foldl (\<lambda>a c. a * b + (case digit_of c of None \<Rightarrow> 0 | Some d \<Rightarrow> d)) 0 ds"

definition radix_digits :: "nat \<Rightarrow> string \<Rightarrow> bool" where
  \<comment> \<open>One or more digits of the base.\<close>
  "radix_digits b ds = (ds \<noteq> [] \<and> list_all (is_radix_digit b) ds)"

definition isHex :: "string \<Rightarrow> bool" where
  \<comment> \<open>viem \<open>isHex(value)\<close> in its default strict mode on a string: false on the empty
      string, else the test \<open>/^0x[0-9a-fA-F]*$/\<close>.\<close>
  "isHex s = (case s of
      c0 # c1 # ds \<Rightarrow> c0 = CHR ''0'' \<and> c1 = CHR ''x'' \<and> list_all (is_radix_digit 16) ds
    | _ \<Rightarrow> False)"

definition nonDecimal :: "nat \<Rightarrow> string \<Rightarrow> js_error + int" where
  "nonDecimal b ds = (if radix_digits b ds then Inr (int (radix_value b ds)) else Inl SyntaxError)"

definition signedInteger :: "string \<Rightarrow> js_error + int" where
  \<comment> \<open>\<open>DecimalDigits\<close>, \<open>+ DecimalDigits\<close> or \<open>- DecimalDigits\<close>.\<close>
  "signedInteger t = (case t of
      [] \<Rightarrow> Inl SyntaxError
    | c # ds \<Rightarrow>
        if c = CHR ''+'' then
          (if radix_digits 10 ds then Inr (int (radix_value 10 ds)) else Inl SyntaxError)
        else if c = CHR ''-'' then
          (if radix_digits 10 ds then Inr (- int (radix_value 10 ds)) else Inl SyntaxError)
        else if radix_digits 10 t then Inr (int (radix_value 10 t))
        else Inl SyntaxError)"

definition BigInt :: "string \<Rightarrow> js_error + int" where
  \<comment> \<open>\<open>BigInt(string)\<close>, that is \<open>StringToBigInt\<close>: surrounding white space is dropped,
      the empty text is 0, the text is else a signed decimal literal or an unsigned literal
      with prefix \<open>0x 0X 0o 0O 0b 0B\<close>; anything else throws a \<open>SyntaxError\<close>.\<close>
  "BigInt str =
     (let t = trim str in
      if t = [] then Inr 0
      else case t of
        c0 # c1 # ds \<Rightarrow>
          if c0 = CHR ''0'' \<and> (c1 = CHR ''x'' \<or> c1 = CHR ''X'') then nonDecimal 16 ds
          else if c0 = CHR ''0'' \<and> (c1 = CHR ''o'' \<or> c1 = CHR ''O'') then nonDecimal 8 ds
          else if c0 = CHR ''0'' \<and> (c1 = CHR ''b'' \<or> c1 = CHR ''B'') then nonDecimal 2 ds
          else signedInteger t
      | _ \<Rightarrow> signedInteger t)"

section \<open>Field parsers (\<open>src/App.tsx\<close>)\<close>

definition parseValue :: "string \<Rightarrow> js_error + int" where
  "parseValue v =
     (let trimmed = trim v in
      if trimmed = [] then Inr 0
      else if isHex trimmed then BigInt trimmed
      else if endsWith_n trimmed then BigInt (butlast trimmed)
      else BigInt trimmed)"

definition parseHexValue :: "string \<Rightarrow> js_error + string" where
  "parseHexValue v =
     (let trimmed = trim v in
      if trimmed = [] \<or> trimmed = ''0x'' then Inr ''0x''
      else if isHex trimmed then Inr trimmed
      else Inl (Error (''Invalid hex value: '' @ v)))"

section \<open>JavaScript values\<close>

text \<open>
  Values that \<open>JSON.parse\<close> and the ABI decoder hand to the program. A Number is carried
  as the text \<open>Number::toString\<close> gives for it, which is all the program reads of it. An
  object is the list of its own properties in insertion order (keys distinct).
  \<open>VInputs\<close> is the \<open>inputs\<close> array of an interface function, kept in its typed form.
\<close>

datatype AbiParameter =
  AbiParameter (param_type: string) (param_name: "string option")
    (param_components: "AbiParameter list option")

datatype jsval =
    VUndefined
  | VNull
  | VBool bool
  | VNum string
  | VBigInt int
  | VStr string
  | VArr "jsval list"
  | VObj "(string \<times> jsval) list"
  | VInputs "AbiParameter list"

fun truthy :: "jsval \<Rightarrow> bool" where
  "truthy VUndefined = False"
| "truthy VNull = False"
| "truthy (VBool b) = b"
| "truthy (VNum s) = (s \<noteq> ''0'' \<and> s \<noteq> ''NaN'')"
| "truthy (VBigInt i) = (i \<noteq> 0)"
| "truthy (VStr s) = (s \<noteq> [])"
| "truthy (VArr xs) = True"
| "truthy (VObj kvs) = True"
| "truthy (VInputs ps) = True"

definition js_or :: "jsval \<Rightarrow> jsval \<Rightarrow> jsval" where
  \<comment> \<open>\<open>a || b\<close>\<close>
  "js_or a b = (if truthy a then a else b)"

definition js_and :: "jsval \<Rightarrow> jsval \<Rightarrow> jsval" where
  \<comment> \<open>\<open>a && b\<close>\<close>
  "js_and a b = (if truthy a then b else a)"

definition field :: "(string \<times> jsval) list \<Rightarrow> string \<Rightarrow> jsval" where
  \<comment> \<open>\<open>obj.key\<close> on an object: \<open>undefined\<close> when the key is absent.\<close>
  "field kvs k = (case map_of kvs k of None \<Rightarrow> VUndefined | Some v \<Rightarrow> v)"

definition field_of :: "jsval \<Rightarrow> string \<Rightarrow> jsval" where
  \<comment> \<open>\<open>value.key\<close> on a value other than \<open>null\<close> and \<open>undefined\<close>, for the keys
      this program reads, none of which a prototype defines: \<open>undefined\<close> on a value
      that is not an object.\<close>
  "field_of v k = (case v of VObj kvs \<Rightarrow> field kvs k | _ \<Rightarrow> VUndefined)"

definition get_prop :: "jsval \<Rightarrow> string \<Rightarrow> js_error + jsval" where
  \<comment> \<open>\<open>value.key\<close>: a \<open>TypeError\<close> on \<open>null\<close> and \<open>undefined\<close>.\<close>
  "get_prop v k = (case v of
      VUndefined \<Rightarrow> Inl TypeError
    | VNull \<Rightarrow> Inl TypeError
    | _ \<Rightarrow> Inr (field_of v k))"

definition obj_set :: "(string \<times> jsval) list \<Rightarrow> string \<Rightarrow> jsval \<Rightarrow> (string \<times> jsval) list" where
  \<comment> \<open>\<open>{...obj, key: v}\<close>: an existing key keeps its place, a new key goes last.\<close>
  "obj_set kvs k v =
     (if k \<in> fst ` set kvs then map (\<lambda>(k', v'). if k' = k then (k', v) else (k', v')) kvs
      else kvs @ [(k, v)])"

fun join :: "string \<Rightarrow> string list \<Rightarrow> string" where
  \<comment> \<open>\<open>Array.prototype.join\<close> on strings\<close>
  "join sep [] = []"
| "join sep [x] = x"
| "join sep (x # y # ys) = x @ sep @ join sep (y # ys)"

fun decimal :: "nat \<Rightarrow> string" where
  \<comment> \<open>The decimal digits of a natural number.\<close>
  "decimal n =
     (if n < 10 then [char_of (48 + n)] else decimal (n div 10) @ [char_of (48 + n mod 10)])"

fun js_String :: "jsval \<Rightarrow> string"
  and js_elements :: "jsval list \<Rightarrow> string list" where
  \<comment> \<open>\<open>String(value)\<close>; an array joins its elements with a comma, where \<open>null\<close> and
      \<open>undefined\<close> elements give the empty text.\<close>
  "js_String VUndefined = ''undefined''"
| "js_String VNull = ''null''"
| "js_String (VBool b) = (if b then ''true'' else ''false'')"
| "js_String (VNum s) = s"
| "js_String (VBigInt i) = (if i < 0 then ''-'' else []) @ decimal (nat \<bar>i\<bar>)"
| "js_String (VStr s) = s"
| "js_String (VArr xs) = join '','' (js_elements xs)"
| "js_String (VObj kvs) = ''[object Object]''"
| "js_String (VInputs ps) = join '','' (map (\<lambda>_. ''[object Object]'') ps)"
| "js_elements [] = []"
| "js_elements (x # xs) =
     (if x = VUndefined \<or> x = VNull then [] else js_String x) # js_elements xs"

section \<open>The UserOperation normalizer (\<open>parseUserOpFromRaw\<close>, \<open>parsedUserOp\<close>)\<close>

record UserOpV06 =
  sender :: jsval
  nonce :: int
  initCode :: string
  callData :: string
  callGasLimit :: int
  verificationGasLimit :: int
  preVerificationGas :: int
  maxFeePerGas :: int
  maxPriorityFeePerGas :: int
  paymasterAndData :: string
  signature :: string

datatype InputMode = Raw | Fields

text \<open>The eleven text inputs of fields mode.\<close>

record FieldInputs =
  sender_in :: string
  nonce_in :: string
  initCode_in :: string
  callData_in :: string
  callGasLimit_in :: string
  verificationGasLimit_in :: string
  preVerificationGas_in :: string
  maxFeePerGas_in :: string
  maxPriorityFeePerGas_in :: string
  paymasterAndData_in :: string
  signature_in :: string

definition bindE :: "'e + 'a \<Rightarrow> ('a \<Rightarrow> 'e + 'b) \<Rightarrow> 'e + 'b" where
  \<comment> \<open>Evaluate, and stop at the first throw.\<close>
  "bindE m f = (case m of Inl e \<Rightarrow> Inl e | Inr x \<Rightarrow> f x)"

definition catch_null :: "'e + 'a \<Rightarrow> 'a option" where
  \<comment> \<open>\<open>try { return ... } catch { return null }\<close>\<close>
  "catch_null m = (case m of Inl e \<Rightarrow> None | Inr x \<Rightarrow> Some x)"

definition parseHexValue_any :: "jsval \<Rightarrow> js_error + string" where
  \<comment> \<open>\<open>parseHexValue\<close> called on an untyped JSON value: \<open>value.trim()\<close> throws a
      \<open>TypeError\<close> on anything but a string.\<close>
  "parseHexValue_any v = (case v of VStr s \<Rightarrow> parseHexValue s | _ \<Rightarrow> Inl TypeError)"

definition buildUserOp ::
  "jsval \<Rightarrow> js_error + int \<Rightarrow> js_error + string \<Rightarrow> js_error + string \<Rightarrow> js_error + int \<Rightarrow>
   js_error + int \<Rightarrow> js_error + int \<Rightarrow> js_error + int \<Rightarrow> js_error + int \<Rightarrow>
   js_error + string \<Rightarrow> js_error + string \<Rightarrow> js_error + UserOpV06" where
  \<comment> \<open>The object literal of both modes: the fields are evaluated in order and the first
      throw leaves the literal.\<close>
  "buildUserOp s n ic cd cgl vgl pvg mfpg mpfpg pmd sg =
     bindE n (\<lambda>n'. bindE ic (\<lambda>ic'. bindE cd (\<lambda>cd'. bindE cgl (\<lambda>cgl'.
     bindE vgl (\<lambda>vgl'. bindE pvg (\<lambda>pvg'. bindE mfpg (\<lambda>mfpg'. bindE mpfpg (\<lambda>mpfpg'.
     bindE pmd (\<lambda>pmd'. bindE sg (\<lambda>sg'.
       Inr \<lparr> sender = s, nonce = n', initCode = ic', callData = cd', callGasLimit = cgl',
             verificationGasLimit = vgl', preVerificationGas = pvg', maxFeePerGas = mfpg',
             maxPriorityFeePerGas = mpfpg', paymasterAndData = pmd', signature = sg' \<rparr>))))))))))"

definition parseUserOpFromRaw :: "(string \<Rightarrow> jsval option) \<Rightarrow> string \<Rightarrow> UserOpV06 option" where
  \<comment> \<open>\<open>JSON_parse\<close> is the built-in \<open>JSON.parse\<close>, \<open>None\<close> where it throws.\<close>
  "parseUserOpFromRaw JSON_parse raw =
     (case JSON_parse raw of
        None \<Rightarrow> None
      | Some parsed \<Rightarrow>
          (case get_prop parsed ''sender'' of
             Inl e \<Rightarrow> None
           | Inr s \<Rightarrow>
               catch_null (buildUserOp s
                 (parseValue (js_String (field_of parsed ''nonce'')))
                 (parseHexValue_any (field_of parsed ''initCode''))
                 (parseHexValue_any (field_of parsed ''callData''))
                 (parseValue (js_String (field_of parsed ''callGasLimit'')))
                 (parseValue (js_String (field_of parsed ''verificationGasLimit'')))
                 (parseValue (js_String (field_of parsed ''preVerificationGas'')))
                 (parseValue (js_String (field_of parsed ''maxFeePerGas'')))
                 (parseValue (js_String (field_of parsed ''maxPriorityFeePerGas'')))
                 (parseHexValue_any (field_of parsed ''paymasterAndData''))
                 (parseHexValue_any (field_of parsed ''signature'')))))"

definition parsedUserOp ::
  "(string \<Rightarrow> jsval option) \<Rightarrow> InputMode \<Rightarrow> string \<Rightarrow> FieldInputs \<Rightarrow> UserOpV06 option" where
  "parsedUserOp JSON_parse inputMode rawInput f =
     (if inputMode = Raw then parseUserOpFromRaw JSON_parse rawInput
      else catch_null (buildUserOp (VStr (sender_in f))
             (parseValue (nonce_in f))
             (parseHexValue (initCode_in f))
             (parseHexValue (callData_in f))
             (parseValue (callGasLimit_in f))
             (parseValue (verificationGasLimit_in f))
             (parseValue (preVerificationGas_in f))
             (parseValue (maxFeePerGas_in f))
             (parseValue (maxPriorityFeePerGas_in f))
             (parseHexValue (paymasterAndData_in f))
             (parseHexValue (signature_in f))))"

section \<open>Rendering of parameter types (\<open>formatAbiType\<close>)\<close>



section \<open>The call-data decoder and its enrichment (\<open>decodeCallData\<close>, \<open>enrichArgs\<close>)\<close>

text \<open>
  An interface is the list of its items in declaration order. The two collaborators are
  parameters: \<open>autoload\<close> is \<open>whatsabi.autoload\<close> (it throws, or returns a result whose
  \<open>abi\<close> may be missing), called with the loader options at the top level and with the
  provider alone for a nested call; \<open>decodeFunctionData\<close> is viem's decoder (it throws,
  or returns the function name and the arguments, \<open>undefined\<close> when there are none).
  Both are taken as functions: a call returns or throws, and the same call gives the same
  answer.
\<close>

record AbiItem =
  item_type :: string
  item_name :: "string option"
  item_inputs :: "AbiParameter list option"

type_synonym Abi = "AbiItem list"

datatype autoload_opts = WithLoaders | ProviderOnly

record collab =
  autoload :: "autoload_opts \<Rightarrow> jsval \<Rightarrow> js_error + Abi option"
  decodeFunctionData :: "Abi \<Rightarrow> string \<Rightarrow> js_error + (string \<times> jsval list option)"

definition abiFunction :: "Abi \<Rightarrow> string \<Rightarrow> AbiItem option" where
  \<comment> \<open>\<open>abi.find((item) => item.type === "function" && item.name === functionName)\<close>\<close>
  "abiFunction abi fn = find (\<lambda>item. item_type item = ''function'' \<and> item_name item = Some fn) abi"

definition abiInputs :: "Abi \<Rightarrow> string \<Rightarrow> AbiParameter list option" where
  \<comment> \<open>\<open>abiFunction?.inputs\<close>\<close>
  "abiInputs abi fn = (case abiFunction abi fn of None \<Rightarrow> None | Some item \<Rightarrow> item_inputs item)"

text \<open>
  \<open>Promise.all\<close> stores the value of the promise with index \<open>i\<close> at position \<open>i\<close> when
  that promise settles, and resolves once every position is filled. \<open>order\<close> lists the
  indices in the order in which the promises settle; \<open>None\<close> is a call that never resolves.
\<close>

definition promise_all :: "nat list \<Rightarrow> 'a list \<Rightarrow> 'a list option" where
  "promise_all order settled =
     (let values = foldl (\<lambda>vs i. if i < length vs then vs[i := Some (settled ! i)] else vs)
                     (replicate (length settled) None) order
      in if list_all (\<lambda>v. v \<noteq> None) values then Some (map the values) else None)"

definition isHex_any :: "jsval \<Rightarrow> bool" where
  \<comment> \<open>viem \<open>isHex\<close> on an untyped value: false on anything but a string.\<close>
  "isHex_any v = (case v of VStr s \<Rightarrow> isHex s | _ \<Rightarrow> False)"

definition nestedCall :: "(string \<times> jsval) list \<Rightarrow> (jsval \<times> string) option" where
  \<comment> \<open>The guard \<open>target && data && isHex(data) && data !== "0x"\<close> on an object, with
      \<open>target = objArg.target || objArg.to\<close> and \<open>data = objArg.callData || objArg.data\<close>.\<close>
  "nestedCall objArg =
     (let target = js_or (field objArg ''target'') (field objArg ''to'');
          data = js_or (field objArg ''callData'') (field objArg ''data'')
      in case data of
           VStr d \<Rightarrow>
             if truthy target \<and> truthy data \<and> isHex_any data \<and> d \<noteq> ''0x'' then Some (target, d)
             else None
         | _ \<Rightarrow> None)"

definition decodedCall_js :: "string \<Rightarrow> jsval list option \<Rightarrow> AbiParameter list option \<Rightarrow> jsval" where
  \<comment> \<open>\<open>{...decodedInner, inputs: innerAbiFunction?.inputs}\<close>\<close>
  "decodedCall_js fn as ins =
     VObj [(''functionName'', VStr fn),
           (''args'', case as of None \<Rightarrow> VUndefined | Some xs \<Rightarrow> VArr xs),
           (''inputs'', case ins of None \<Rightarrow> VUndefined | Some ps \<Rightarrow> VInputs ps)]"

definition enrichObject :: "collab \<Rightarrow> (string \<times> jsval) list \<Rightarrow> jsval" where
  \<comment> \<open>The object branch of the mapper: every throw inside the \<open>try\<close> is caught and the
      argument is returned as it came.\<close>
  "enrichObject C objArg =
     (case nestedCall objArg of
        None \<Rightarrow> VObj objArg
      | Some (target, d) \<Rightarrow>
          (case autoload C ProviderOnly target of
             Inl e \<Rightarrow> VObj objArg
           | Inr None \<Rightarrow> VObj objArg
           | Inr (Some abi) \<Rightarrow>
               (case decodeFunctionData C abi d of
                  Inl e \<Rightarrow> VObj objArg
                | Inr (fn, as) \<Rightarrow>
                    VObj (obj_set objArg ''decodedCall''
                            (decodedCall_js fn as (abiInputs abi fn))))))"

text \<open>
  \<open>enrichArg\<close> is the mapper, \<open>enrichEach\<close> the \<open>args.map\<close> of it. \<open>ord p n\<close> is the
  order in which the \<open>n\<close> promises of the \<open>Promise.all\<close> at path \<open>p\<close> settle, where the
  path of a nested array is the list of indices that lead to it from the top-level arguments.
  The mapper has three outcomes: an array is walked, an object goes through the guarded
  decode, and any other value is returned as it is. (An \<open>inputs\<close> array only occurs
  inside an annotation; its descriptors hold no call, so walking it would return an equal
  array.)
\<close>

fun enrichArg :: "collab \<Rightarrow> (nat list \<Rightarrow> nat \<Rightarrow> nat list) \<Rightarrow> nat list \<Rightarrow> jsval \<Rightarrow> jsval option"
  and enrichEach ::
    "collab \<Rightarrow> (nat list \<Rightarrow> nat \<Rightarrow> nat list) \<Rightarrow> nat list \<Rightarrow> nat \<Rightarrow> jsval list \<Rightarrow> jsval list option"
  where
  "enrichArg C ord p (VArr xs) =
     (case enrichEach C ord p 0 xs of
        None \<Rightarrow> None
      | Some ys \<Rightarrow> map_option VArr (promise_all (ord p (length xs)) ys))"
| "enrichArg C ord p (VObj objArg) = Some (enrichObject C objArg)"
| "enrichArg C ord p arg = Some arg"
| "enrichEach C ord p i [] = Some []"
| "enrichEach C ord p i (x # xs) =
     (case enrichArg C ord (p @ [i]) x of
        None \<Rightarrow> None
      | Some y \<Rightarrow>
          (case enrichEach C ord p (Suc i) xs of None \<Rightarrow> None | Some ys \<Rightarrow> Some (y # ys)))"

definition enrichArgs ::
  "collab \<Rightarrow> (nat list \<Rightarrow> nat \<Rightarrow> nat list) \<Rightarrow> nat list \<Rightarrow> jsval list \<Rightarrow> jsval list option" where
  "enrichArgs C ord p args =
     (case enrichEach C ord p 0 args of
        None \<Rightarrow> None
      | Some ys \<Rightarrow> promise_all (ord p (length args)) ys)"

record DecodedCallWithTypes =
  functionName :: string
  args :: "jsval list option"
  inputs :: "AbiParameter list option"

definition decodeCallData ::
  "collab \<Rightarrow> (nat list \<Rightarrow> nat \<Rightarrow> nat list) \<Rightarrow> UserOpV06 option \<Rightarrow> bool \<Rightarrow>
   DecodedCallWithTypes option option" where
  \<comment> \<open>The query function. The outer \<open>None\<close> is a promise that never settles, \<open>Some None\<close>
      is the result \<open>null\<close>. \<open>client\<close> tells whether a client exists for the chain.\<close>
  "decodeCallData C ord parsedOp client =
     (case parsedOp of
        None \<Rightarrow> Some None
      | Some op \<Rightarrow>
          if \<not> truthy (sender op) \<or> callData op = [] \<or> callData op = ''0x'' \<or> \<not> client
          then Some None
          else
            (case autoload C WithLoaders (sender op) of
               Inl e \<Rightarrow> Some None
             | Inr None \<Rightarrow> Some None
             | Inr (Some abi) \<Rightarrow>
                 (case decodeFunctionData C abi (callData op) of
                    Inl e \<Rightarrow> Some None
                  | Inr (fn, as) \<Rightarrow>
                      (case as of
                         Some xs \<Rightarrow>
                           (case enrichArgs C ord [] xs of
                              None \<Rightarrow> None
                            | Some ys \<Rightarrow>
                                Some (Some \<lparr> functionName = fn, args = Some ys,
                                             inputs = abiInputs abi fn \<rparr>))
                       | None \<Rightarrow>
                           Some (Some \<lparr> functionName = fn, args = None,
                                        inputs = abiInputs abi fn \<rparr>)))))"

section \<open>The hash comparison (\<open>hashesMatch\<close>)\<close>

definition normalizedExpectedHash :: "string \<Rightarrow> string" where
  "normalizedExpectedHash expectedHash = toLowerCase (trim expectedHash)"

definition normalizedComputedHash :: "string option \<Rightarrow> jsval" where
  \<comment> \<open>\<open>computedHash?.toLowerCase()\<close>, where \<open>None\<close> is \<open>undefined\<close>\<close>
  "normalizedComputedHash computedHash =
     (case computedHash of None \<Rightarrow> VUndefined | Some h \<Rightarrow> VStr (toLowerCase h))"

definition hashesMatch :: "string \<Rightarrow> string option \<Rightarrow> jsval" where
  "hashesMatch expectedHash computedHash =
     js_and (VStr (normalizedExpectedHash expectedHash))
       (js_and (normalizedComputedHash computedHash)
          (VBool (VStr (normalizedExpectedHash expectedHash) = normalizedComputedHash computedHash)))"

definition hashComparison :: "string \<Rightarrow> string option \<Rightarrow> bool option" where
  \<comment> \<open>The comparison section of the page: it is rendered under the guard
      \<open>normalizedExpectedHash && computedHash\<close>, and then reports a match
      (\<open>Some True\<close>) or a mismatch (\<open>Some False\<close>) by the truth of \<open>hashesMatch\<close>.\<close>
  "hashComparison expectedHash computedHash =
     (if normalizedExpectedHash expectedHash \<noteq> [] \<and>
         (case computedHash of None \<Rightarrow> False | Some h \<Rightarrow> h \<noteq> [])
      then Some (truthy (hashesMatch expectedHash computedHash))
      else None)"

section \<open>The parsing rules as the specification words them\<close>

text \<open>
  The integer rule of the specification: trim; the empty text is zero; a \<open>0x\<close>-prefixed
  hexadecimal literal is read as hexadecimal; a text that ends with \<open>n\<close> loses that
  suffix and the rest is read as a decimal integer; any other text is read as a decimal
  integer. A decimal integer is a run of decimal digits with an optional sign, and a
  text that is no literal of the selected kind fails.
\<close>

definition hexLiteral :: "string \<Rightarrow> bool" where
  \<comment> \<open>\<open>0x\<close> and at least one hexadecimal digit\<close>
  "hexLiteral t = (isHex t \<and> 2 < length t)"

definition parseValue_spec :: "string \<Rightarrow> js_error + int" where
  "parseValue_spec v =
     (let t = trim v in
      if t = [] then Inr 0
      else if hexLiteral t then Inr (int (radix_value 16 (drop 2 t)))
      else if endsWith_n t then signedInteger (butlast t)
      else signedInteger t)"

definition decimalText :: "string \<Rightarrow> string" where
  \<comment> \<open>The text that is left to read as a decimal integer.\<close>
  "decimalText v = (let t = trim v in if endsWith_n t then butlast t else t)"

definition radixPrefixed :: "string \<Rightarrow> bool" where
  \<comment> \<open>The text starts with one of \<open>0x 0X 0o 0O 0b 0B\<close>.\<close>
  "radixPrefixed r =
     (case r of c0 # c1 # ds \<Rightarrow> c0 = CHR ''0'' \<and> c1 \<in> set ''xXoObB'' | _ \<Rightarrow> False)"

text \<open>
  The literals that \<open>BigInt\<close> reads, for the amended integer rule: a run of decimal digits
  with an optional sign, or an unsigned run of digits after one of the radix prefixes.
\<close>

definition digitsOf :: "string \<Rightarrow> string \<Rightarrow> bool" where
  \<comment> \<open>One or more characters, all of the alphabet.\<close>
  "digitsOf alphabet ds = (ds \<noteq> [] \<and> set ds \<subseteq> set alphabet)"

definition integerLiteral :: "string \<Rightarrow> bool" where
  "integerLiteral r =
     (digitsOf ''0123456789'' r \<or>
      (r \<noteq> [] \<and> hd r \<in> set ''+-'' \<and> digitsOf ''0123456789'' (tl r)) \<or>
      (take 2 r \<in> set [''0x'', ''0X''] \<and> digitsOf ''0123456789abcdefABCDEF'' (drop 2 r)) \<or>
      (take 2 r \<in> set [''0o'', ''0O''] \<and> digitsOf ''01234567'' (drop 2 r)) \<or>
      (take 2 r \<in> set [''0b'', ''0B''] \<and> digitsOf ''01'' (drop 2 r)))"

text \<open>
  The range of the specification's integer fields, and the texts that are sure to stay
  in it: the empty text, \<open>0x\<close> with at most 64 digits, at most 77 decimal digits.
\<close>

definition uint256 :: "int \<Rightarrow> bool" where
  "uint256 n = (0 \<le> n \<and> n < 2 ^ 256)"

definition uint256Text :: "string \<Rightarrow> bool" where
  "uint256Text s =
     (let t = trim s
      in t = [] \<or> (isHex t \<and> length t \<le> 66) \<or> (radix_digits 10 t \<and> length t \<le> 77))"

definition addressText :: "string \<Rightarrow> bool" where
  \<comment> \<open>The specification's 20-byte address: \<open>0x\<close> and forty hexadecimal digits.\<close>
  "addressText s = (isHex s \<and> length s = 42)"

definition intFields :: "UserOpV06 \<Rightarrow> int list" where
  "intFields r = [nonce r, callGasLimit r, verificationGasLimit r, preVerificationGas r,
                  maxFeePerGas r, maxPriorityFeePerGas r]"

definition hexFields :: "UserOpV06 \<Rightarrow> string list" where
  "hexFields r = [initCode r, callData r, paymasterAndData r, signature r]"

definition intInputs :: "FieldInputs \<Rightarrow> string list" where
  "intInputs f = [nonce_in f, callGasLimit_in f, verificationGasLimit_in f,
                  preVerificationGas_in f, maxFeePerGas_in f, maxPriorityFeePerGas_in f]"

definition hexInputs :: "FieldInputs \<Rightarrow> string list" where
  "hexInputs f = [initCode_in f, callData_in f, paymasterAndData_in f, signature_in f]"

definition intKeys :: "string list" where
  "intKeys = [''nonce'', ''callGasLimit'', ''verificationGasLimit'', ''preVerificationGas'',
              ''maxFeePerGas'', ''maxPriorityFeePerGas'']"

definition hexKeys :: "string list" where
  "hexKeys = [''initCode'', ''callData'', ''paymasterAndData'', ''signature'']"

section \<open>Inputs of the examples\<close>

definition defaultFields :: FieldInputs where
  \<comment> \<open>The \<open>defaultValue\<close> of each field input.\<close>
  "defaultFields =
     \<lparr> sender_in = [], nonce_in = [], initCode_in = ''0x'', callData_in = ''0x'',
       callGasLimit_in = [], verificationGasLimit_in = [], preVerificationGas_in = [],
       maxFeePerGas_in = [], maxPriorityFeePerGas_in = [], paymasterAndData_in = ''0x'',
       signature_in = ''0x'' \<rparr>"

definition exampleJSON :: "string \<Rightarrow> jsval option" where
  \<comment> \<open>A stand-in for \<open>JSON.parse\<close> that is right on the texts of the examples: the
      three objects, and the malformed text \<open>{\<close>, on which \<open>JSON.parse\<close> throws. No
      other text is used.\<close>
  "exampleJSON raw =
     (if raw = ''{}'' then Some (VObj [])
      else if raw = ''{\"sender\":\"0xabc\",\"nonce\":\"not-a-number\"}'' then
        Some (VObj [(''sender'', VStr ''0xabc''), (''nonce'', VStr ''not-a-number'')])
      else if raw = ''{\"nonce\":7,\"initCode\":\"0x\",\"callData\":\"0x\",\"callGasLimit\":\"0x10\",\"verificationGasLimit\":\"\",\"preVerificationGas\":\"21000\",\"maxFeePerGas\":\"1\",\"maxPriorityFeePerGas\":\"1\",\"paymasterAndData\":\"0x\",\"signature\":\"0x\"}'' then
        Some (VObj [(''nonce'', VNum ''7''), (''initCode'', VStr ''0x''), (''callData'', VStr ''0x''),
                    (''callGasLimit'', VStr ''0x10''), (''verificationGasLimit'', VStr []),
                    (''preVerificationGas'', VStr ''21000''), (''maxFeePerGas'', VStr ''1''),
                    (''maxPriorityFeePerGas'', VStr ''1''), (''paymasterAndData'', VStr ''0x''),
                    (''signature'', VStr ''0x'')])
      else None)"

section \<open>The rendering rule as the specification words it\<close>







section \<open>Notions used to state the properties of the enrichment\<close>

definition settlesAll :: "(nat list \<Rightarrow> nat \<Rightarrow> nat list) \<Rightarrow> bool" where
  \<comment> \<open>In every \<open>Promise.all\<close> each of the \<open>n\<close> promises settles, once, in some order.\<close>
  "settlesAll ord = (\<forall>p n. distinct (ord p n) \<and> set (ord p n) = {0..<n})"

fun annotated :: "jsval \<Rightarrow> jsval \<Rightarrow> bool" where
  \<comment> \<open>\<open>annotated x y\<close>: \<open>y\<close> is \<open>x\<close>, where objects may carry a \<open>decodedCall\<close>
      annotation and arrays hold such elements, position by position.\<close>
  "annotated (VArr xs) (VArr ys) = list_all2 annotated xs ys"
| "annotated (VObj a) (VObj b) =
     (b = a \<or> (case map_of b ''decodedCall'' of
                  None \<Rightarrow> False
                | Some d \<Rightarrow> b = obj_set a ''decodedCall'' d))"
| "annotated x y = (x = y)"

fun node_at :: "jsval list \<Rightarrow> nat list \<Rightarrow> jsval option" where
  \<comment> \<open>The node reached from an argument list by a path of positions through arrays.\<close>
  "node_at xs [] = None"
| "node_at xs [i] = (if i < length xs then Some (xs ! i) else None)"
| "node_at xs (i # j # p) =
     (if i < length xs then (case xs ! i of VArr ys \<Rightarrow> node_at ys (j # p) | _ \<Rightarrow> None)
      else None)"

definition innerFails :: "collab \<Rightarrow> jsval \<Rightarrow> string \<Rightarrow> bool" where
  \<comment> \<open>Resolution throws or finds no interface, or the interface does not decode the data.\<close>
  "innerFails C target d =
     (case autoload C ProviderOnly target of
        Inl e \<Rightarrow> True
      | Inr None \<Rightarrow> True
      | Inr (Some abi) \<Rightarrow> isl (decodeFunctionData C abi d))"

definition exampleAbi :: Abi where
  \<comment> \<open>An interface with an event and two functions of one name.\<close>
  "exampleAbi =
     [\<lparr> item_type = ''event'', item_name = Some ''transfer'',
        item_inputs = Some [AbiParameter ''address'' (Some ''from'') None] \<rparr>,
      \<lparr> item_type = ''function'', item_name = Some ''execute'',
        item_inputs = Some [AbiParameter ''tuple'' (Some ''call'')
          (Some [AbiParameter ''address'' (Some ''to'') None,
                 AbiParameter ''bytes'' (Some ''data'') None])] \<rparr>,
      \<lparr> item_type = ''function'', item_name = Some ''transfer'',
        item_inputs = Some [AbiParameter ''address'' (Some ''to'') None,
                            AbiParameter ''uint256'' (Some ''amount'') None] \<rparr>,
      \<lparr> item_type = ''function'', item_name = Some ''transfer'',
        item_inputs = Some [AbiParameter ''address'' (Some ''to'') None,
                            AbiParameter ''uint256'' (Some ''amount'') None,
                            AbiParameter ''bytes'' (Some ''memo'') None] \<rparr>]"

definition exampleCollab :: collab where
  \<comment> \<open>The addresses \<open>0xA\<close> and \<open>0xB\<close> resolve to \<open>exampleAbi\<close>, \<open>0xC\<close> resolves to no
      interface, and the resolver throws on any other. The decoder knows three selectors.\<close>
  "exampleCollab =
     \<lparr> autoload = (\<lambda>opts target.
          if target = VStr ''0xA'' \<or> target = VStr ''0xB'' then Inr (Some exampleAbi)
          else if target = VStr ''0xC'' then Inr None
          else Inl (Error ''no code'')),
       decodeFunctionData = (\<lambda>abi d.
          if d = ''0xaaaaaaaa'' then
            Inr (''execute'', Some [VObj [(''to'', VStr ''0xB''), (''data'', VStr ''0xbbbbbbbb'')]])
          else if d = ''0xbbbbbbbb'' then Inr (''transfer'', Some [VStr ''0xD'', VBigInt 5])
          else if d = ''0xcccccccc'' then
            Inr (''batch'', Some [VObj [(''to'', VStr ''0xE''), (''data'', VStr ''0xbbbbbbbb'')],
                                 VObj [(''to'', VStr ''0xB''), (''data'', VStr ''0xbbbbbbbb'')],
                                 VObj [(''to'', VStr ''0xB''), (''data'', VStr ''0xdddddddd'')]])
          else Inl (Error ''unknown selector'')) \<rparr>"

definition exampleOp :: UserOpV06 where
  "exampleOp =
     \<lparr> sender = VStr ''0xA'', nonce = 0, initCode = ''0x'', callData = ''0xcccccccc'',
       callGasLimit = 0, verificationGasLimit = 0, preVerificationGas = 0, maxFeePerGas = 0,
       maxPriorityFeePerGas = 0, paymasterAndData = ''0x'', signature = ''0x'' \<rparr>"

definition inOrder :: "nat list \<Rightarrow> nat \<Rightarrow> nat list" where
  "inOrder p n = [0..<n]"

definition reverseOrder :: "nat list \<Rightarrow> nat \<Rightarrow> nat list" where
  "reverseOrder p n = rev [0..<n]"

section \<open>White space and hexadecimal text\<close>

lemma trim_Nil: "trim [] = []"
  by (simp add: trim_def)

lemma dropWhile_id: "s \<noteq> [] \<Longrightarrow> \<not> P (hd s) \<Longrightarrow> dropWhile P s = s"
  by (cases s) simp_all

lemma trim_id: "s \<noteq> [] \<Longrightarrow> \<not> is_ws (hd s) \<Longrightarrow> \<not> is_ws (last s) \<Longrightarrow> trim s = s"
  by (simp add: trim_def dropWhile_id hd_rev)

lemma trim_ends:
  assumes "trim s \<noteq> []"
  shows "\<not> is_ws (hd (trim s))" and "\<not> is_ws (last (trim s))"
proof -
  define a where "a = dropWhile is_ws s"
  define b where "b = dropWhile is_ws (rev a)"
  have t: "trim s = rev b" by (simp only: trim_def a_def b_def)
  from assms have b: "b \<noteq> []" by (simp add: t)
  then have hb: "\<not> is_ws (hd b)" unfolding b_def by (rule hd_dropWhile)
  have a: "a \<noteq> []"
  proof
    assume "a = []"
    then have "b = []" by (simp only: b_def rev.simps dropWhile.simps)
    with b show False by blast
  qed
  then have ha: "\<not> is_ws (hd a)" unfolding a_def by (rule hd_dropWhile)
  from hb b show "\<not> is_ws (last (trim s))" by (simp add: t last_rev)
  have "rev a = takeWhile is_ws (rev a) @ b"
    by (simp only: b_def takeWhile_dropWhile_id)
  then have "rev (rev a) = rev (takeWhile is_ws (rev a) @ b)" by (rule arg_cong)
  then have "a = rev b @ rev (takeWhile is_ws (rev a))" by (simp only: rev_append rev_rev_ident)
  then have "hd a = hd (rev b @ rev (takeWhile is_ws (rev a)))" by (rule arg_cong)
  with b have "hd a = hd (rev b)" by simp
  with ha show "\<not> is_ws (hd (trim s))" by (simp add: t)
qed

lemma trim_idem: "trim (trim s) = trim s"
proof (cases "trim s = []")
  case True then show ?thesis by (simp add: trim_Nil)
next
  case False then show ?thesis using trim_ends[OF False] by (simp add: trim_id)
qed

lemma dropWhile_pad: "list_all P l \<Longrightarrow> dropWhile P (l @ s) = dropWhile P s"
  by (induction l) simp_all

lemma dropWhile_all: "list_all P l \<Longrightarrow> dropWhile P l = []"
  by (induction l) simp_all

lemma trim_pad:
  assumes l: "list_all is_ws l" and r: "list_all is_ws r"
  shows "trim (l @ s @ r) = trim s"
proof -
  have r': "list_all is_ws (rev r)" using r by (simp add: list_all_iff)
  have 0: "dropWhile is_ws (l @ s @ r) = dropWhile is_ws (s @ r)"
    using l by (rule dropWhile_pad)
  show ?thesis
  proof (cases "list_all is_ws s")
    case True
    then have "list_all is_ws (s @ r)" using r by simp
    then have "dropWhile is_ws (s @ r) = []" by (rule dropWhile_all)
    moreover have "dropWhile is_ws s = []" using True by (rule dropWhile_all)
    ultimately show ?thesis by (simp only: trim_def 0)
  next
    case False
    then obtain x where "x \<in> set s" "\<not> is_ws x" by (auto simp: list_all_iff)
    then have "dropWhile is_ws (s @ r) = dropWhile is_ws s @ r"
      by simp
    then show ?thesis using r' by (simp add: trim_def 0 dropWhile_pad)
  qed
qed

lemma isHex_iff:
  "isHex s \<longleftrightarrow> (\<exists>ds. s = ''0x'' @ ds \<and> list_all (is_radix_digit 16) ds)"
  by (auto simp: isHex_def split: list.splits)


lemma hexdigit_chars: "is_radix_digit 16 c \<longleftrightarrow> c \<in> set ''0123456789abcdefABCDEF''"
proof
  assume "c \<in> set ''0123456789abcdefABCDEF''"
  then show "is_radix_digit 16 c"
    by (auto simp: is_radix_digit_def digit_of_def)
next
  assume a: "is_radix_digit 16 c"
  define n where "n = (of_char c :: nat)"
  from a have "n \<in> {48..57} \<union> {97..102} \<union> {65..70}"
    by (auto simp: is_radix_digit_def digit_of_def n_def Let_def split: if_splits)
  then have "n \<in> {48,49,50,51,52,53,54,55,56,57,97,98,99,100,101,102,65,66,67,68,69,70}"
    by (auto simp: atLeastAtMost_def) arith
  then have "n \<in> of_char ` set ''0123456789abcdefABCDEF''"
    by simp
  then obtain d where d: "d \<in> set ''0123456789abcdefABCDEF''" and "(of_char d :: nat) = n"
    by (rule imageE) simp
  then have "(of_char d :: nat) = of_char c" by (simp add: n_def)
  then have "d = c" by (simp only: of_char_eq_iff)
  with d show "c \<in> set ''0123456789abcdefABCDEF''" by simp
qed

lemma isHex_chars:
  "isHex s \<longleftrightarrow> (\<exists>ds. s = ''0x'' @ ds \<and> set ds \<subseteq> set ''0123456789abcdefABCDEF'')"
  unfolding isHex_iff list_all_iff hexdigit_chars by blast

text \<open>
  Claim C2, as amended. After trimming, the empty string and \<open>0x\<close> give the empty marker
  \<open>0x\<close>; any other value is accepted if and only if it is \<open>0x\<close> followed by hexadecimal
  digits only, whatever their number, and is returned trimmed; anything else fails with
  the message \<open>Invalid hex value: \<close> followed by the raw, untrimmed input. Both
  \<open>0x1234\<close> and \<open>0x123\<close> are accepted.
\<close>

theorem parseHexValue_rule:
  "parseHexValue v =
     (if trim v = [] \<or> trim v = ''0x'' then Inr ''0x''
      else if (\<exists>ds. trim v = ''0x'' @ ds \<and> set ds \<subseteq> set ''0123456789abcdefABCDEF'')
      then Inr (trim v)
      else Inl (Error (''Invalid hex value: '' @ v)))
   \<and> parseHexValue [] = Inr ''0x'' \<and> parseHexValue ''0x'' = Inr ''0x''
   \<and> parseHexValue ''0x1234'' = Inr ''0x1234'' \<and> parseHexValue ''0x123'' = Inr ''0x123''"
proof -
  have "parseHexValue v =
     (if trim v = [] \<or> trim v = ''0x'' then Inr ''0x''
      else if isHex (trim v) then Inr (trim v)
      else Inl (Error (''Invalid hex value: '' @ v)))"
    by (simp add: parseHexValue_def Let_def)
  moreover have "parseHexValue [] = Inr ''0x''" by code_simp
  moreover have "parseHexValue ''0x'' = Inr ''0x''" by code_simp
  moreover have "parseHexValue ''0x1234'' = Inr ''0x1234''" by code_simp
  moreover have "parseHexValue ''0x123'' = Inr ''0x123''" by code_simp
  ultimately show ?thesis by (simp only: isHex_chars simp_thms)
qed

theorem parseHexValue_rule_witness:
  "parseHexValue '' 0xAb1 '' = Inr ''0xAb1'' \<and> parseHexValue ''0x12g'' = Inl (Error ''Invalid hex value: 0x12g'')"
proof -
  have t1: "trim '' 0xAb1 '' = ''0xAb1''" by code_simp
  have t2: "trim ''0x12g'' = ''0x12g''" by code_simp
  have n2: "\<not> (\<exists>ds. ''0x12g'' = ''0x'' @ ds \<and> set ds \<subseteq> set ''0123456789abcdefABCDEF'')" by auto
  have y1: "\<exists>ds. ''0xAb1'' = ''0x'' @ ds \<and> set ds \<subseteq> set ''0123456789abcdefABCDEF''" by auto
  show ?thesis
    using parseHexValue_rule[of "'' 0xAb1 ''"] parseHexValue_rule[of "''0x12g''"] y1 n2
    by (simp only: t1 t2) simp
qed

text \<open>
  Claim C2 as stated requires an even number of digits; the odd-length \<open>0x123\<close> is
  accepted all the same.
\<close>

theorem parseHexValue_odd_length_counterexample:
  "odd (length ''0x123'') \<and> parseHexValue ''0x123'' = Inr ''0x123''"
  by code_simp

section \<open>Integer fields\<close>

lemma decimal_digit_facts:
  assumes "is_radix_digit 10 c"
  shows "\<not> is_ws c" and "c \<notin> set ''xXoObB''" and "c \<noteq> CHR ''n''" and "c \<noteq> CHR ''+''" and "c \<noteq> CHR ''-''"
  using assms by (auto simp: is_radix_digit_def digit_of_def is_ws_def Let_def split: if_splits)

lemma hex_digit_facts:
  assumes "is_radix_digit 16 c"
  shows "\<not> is_ws c" and "c \<noteq> CHR ''n''"
  using assms by (auto simp: is_radix_digit_def digit_of_def is_ws_def Let_def split: if_splits)

lemma BigInt_plain:
  assumes "r \<noteq> []" "\<not> is_ws (hd r)" "\<not> is_ws (last r)" "\<not> radixPrefixed r"
  shows "BigInt r = signedInteger r"
proof -
  have t: "trim r = r" using assms(1-3) by (rule trim_id)
  show ?thesis
    using assms(1,4) by (auto simp: BigInt_def t radixPrefixed_def Let_def split: list.splits)
qed


lemma parseValue_on_hex:
  assumes "isHex (trim v)"
  shows "parseValue v = parseValue_spec v"
proof -
  from assms obtain ds where t: "trim v = ''0x'' @ ds" and ds: "list_all (is_radix_digit 16) ds"
    unfolding isHex_iff by blast
  have tt: "trim (''0x'' @ ds) = ''0x'' @ ds" using trim_idem[of v] by (simp only: t)
  have code: "parseValue v = nonDecimal 16 ds"
    using assms tt by (simp add: parseValue_def t BigInt_def Let_def)
  show ?thesis
  proof (cases "ds = []")
    case True
    have "signedInteger ''0x'' = Inl SyntaxError" by code_simp
    then show ?thesis
      using True by (simp add: code parseValue_spec_def t hexLiteral_def isHex_def
          nonDecimal_def radix_digits_def endsWith_n_def Let_def)
  next
    case False
    then show ?thesis
      using ds assms by (simp add: code parseValue_spec_def t hexLiteral_def
          nonDecimal_def radix_digits_def Let_def)
  qed
qed

lemma hd_butlast: "butlast t \<noteq> [] \<Longrightarrow> hd (butlast t) = hd t"
  by (cases t) auto

lemma parseValue_on_plain:
  assumes t: "trim v \<noteq> []" and nh: "\<not> isHex (trim v)"
    and r: "decimalText v \<noteq> []" and l: "\<not> is_ws (last (decimalText v))"
    and np: "\<not> radixPrefixed (decimalText v)"
  shows "parseValue v = parseValue_spec v"
proof -
  have "hd (decimalText v) = hd (trim v)"
    using r by (auto simp: decimalText_def Let_def hd_butlast split: if_splits)
  then have h: "\<not> is_ws (hd (decimalText v))" using trim_ends(1)[OF t] by simp
  have code: "parseValue v = BigInt (decimalText v)"
    using t nh by (simp add: parseValue_def decimalText_def Let_def)
  have spec: "parseValue_spec v = signedInteger (decimalText v)"
    using t nh by (simp add: parseValue_spec_def decimalText_def hexLiteral_def Let_def)
  show ?thesis unfolding code spec using r h l np by (rule BigInt_plain)
qed

lemma signedInteger_shape:
  assumes "signedInteger r = Inr n"
  shows "r \<noteq> []" and "\<not> is_ws (last r)" and "\<not> radixPrefixed r"
proof -
  from assms show "r \<noteq> []" by (auto simp: signedInteger_def)
  from assms obtain c ds where r: "r = c # ds" by (cases r) (auto simp: signedInteger_def)
  from assms r have d: "(c \<in> set ''+-'' \<and> radix_digits 10 ds) \<or> radix_digits 10 r"
    by (auto simp: signedInteger_def split: if_splits)
  then have "is_radix_digit 10 (last r)"
    by (auto simp: r radix_digits_def list_all_iff)
  then show "\<not> is_ws (last r)" by (rule decimal_digit_facts)
  show "\<not> radixPrefixed r"
  proof
    assume p: "radixPrefixed r"
    then obtain c1 es where r2: "r = CHR ''0'' # c1 # es" and c1: "c1 \<in> set ''xXoObB''"
      by (auto simp: radixPrefixed_def split: list.splits)
    with d r have "radix_digits 10 r" by auto
    then have "is_radix_digit 10 c1" by (simp add: r2 radix_digits_def)
    then have "c1 \<notin> set ''xXoObB''" by (rule decimal_digit_facts)
    with c1 show False by blast
  qed
qed

lemma char_in_codes: "(of_char c :: nat) \<in> of_char ` set cs \<Longrightarrow> c \<in> set cs"
proof -
  assume "(of_char c :: nat) \<in> of_char ` set cs"
  then obtain d where d: "d \<in> set cs" and "(of_char c :: nat) = of_char d" by (rule imageE)
  then have "c = d" by (simp only: of_char_eq_iff)
  with d show ?thesis by simp
qed

lemma decdigit_chars: "is_radix_digit 10 c \<longleftrightarrow> c \<in> set ''0123456789''"
proof
  assume "c \<in> set ''0123456789''"
  then show "is_radix_digit 10 c" by (auto simp: is_radix_digit_def digit_of_def)
next
  assume "is_radix_digit 10 c"
  then have "(of_char c :: nat) \<in> {48..57}"
    by (auto simp: is_radix_digit_def digit_of_def Let_def split: if_splits)
  then have "(of_char c :: nat) \<in> {48,49,50,51,52,53,54,55,56,57}"
    by (auto simp: atLeastAtMost_def) arith
  then have "(of_char c :: nat) \<in> of_char ` set ''0123456789''" by simp
  then show "c \<in> set ''0123456789''" by (rule char_in_codes)
qed

lemma octdigit_chars: "is_radix_digit 8 c \<longleftrightarrow> c \<in> set ''01234567''"
proof
  assume "c \<in> set ''01234567''"
  then show "is_radix_digit 8 c" by (auto simp: is_radix_digit_def digit_of_def)
next
  assume "is_radix_digit 8 c"
  then have "(of_char c :: nat) \<in> {48..55}"
    by (auto simp: is_radix_digit_def digit_of_def Let_def split: if_splits)
  then have "(of_char c :: nat) \<in> {48,49,50,51,52,53,54,55}"
    by (auto simp: atLeastAtMost_def)
  then have "(of_char c :: nat) \<in> of_char ` set ''01234567''" by simp
  then show "c \<in> set ''01234567''" by (rule char_in_codes)
qed

lemma bindigit_chars: "is_radix_digit 2 c \<longleftrightarrow> c \<in> set ''01''"
proof
  assume "c \<in> set ''01''"
  then show "is_radix_digit 2 c" by (auto simp: is_radix_digit_def digit_of_def)
next
  assume "is_radix_digit 2 c"
  then have "(of_char c :: nat) \<in> {48..49}"
    by (auto simp: is_radix_digit_def digit_of_def Let_def split: if_splits)
  then have "(of_char c :: nat) \<in> {48,49}"
    by (auto simp: atLeastAtMost_def)
  then have "(of_char c :: nat) \<in> of_char ` set ''01''" by simp
  then show "c \<in> set ''01''" by (rule char_in_codes)
qed

lemma radix_digits_chars:
  "radix_digits 10 ds = digitsOf ''0123456789'' ds"
  "radix_digits 16 ds = digitsOf ''0123456789abcdefABCDEF'' ds"
  "radix_digits 8 ds = digitsOf ''01234567'' ds"
  "radix_digits 2 ds = digitsOf ''01'' ds"
  unfolding radix_digits_def digitsOf_def list_all_iff
    decdigit_chars hexdigit_chars octdigit_chars bindigit_chars by blast+

lemma isHex_not_n: "isHex t \<Longrightarrow> \<not> endsWith_n t"
proof -
  assume "isHex t"
  then obtain ds where t: "t = ''0x'' @ ds" and ds: "list_all (is_radix_digit 16) ds"
    unfolding isHex_iff by blast
  show ?thesis
  proof (cases "ds = []")
    case True
    then show ?thesis by (simp add: t endsWith_n_def)
  next
    case False
    with ds have "is_radix_digit 16 (last ds)" by (simp add: list_all_iff)
    then have "last ds \<noteq> CHR ''n''" by (rule hex_digit_facts)
    with False show ?thesis by (simp add: t endsWith_n_def)
  qed
qed

lemma parseValue_BigInt: "parseValue v = BigInt (decimalText v)"
proof (cases "trim v = []")
  case True
  then show ?thesis
    by (simp add: parseValue_def decimalText_def endsWith_n_def BigInt_def trim_Nil)
next
  case False
  show ?thesis
  proof (cases "isHex (trim v)")
    case True
    with isHex_not_n[OF True] False show ?thesis
      by (simp add: parseValue_def decimalText_def Let_def)
  next
    case h: False
    with False show ?thesis by (simp add: parseValue_def decimalText_def Let_def)
  qed
qed

lemma BigInt_empty: "trim s = [] \<Longrightarrow> BigInt s = Inr 0"
  by (simp add: BigInt_def)

lemma dec_not_sign:
  assumes "digitsOf ''0123456789'' r"
  shows "r \<noteq> []" "hd r \<noteq> CHR ''+''" "hd r \<noteq> CHR ''-''" "\<not> radixPrefixed r" "radix_digits 10 r"
proof -
  from assms show r: "r \<noteq> []" by (simp add: digitsOf_def)
  from assms show d: "radix_digits 10 r" by (simp add: radix_digits_chars)
  from r d have "is_radix_digit 10 (hd r)" by (simp add: radix_digits_def list_all_iff)
  from decimal_digit_facts(4,5)[OF this] show "hd r \<noteq> CHR ''+''" "hd r \<noteq> CHR ''-''" .
  show "\<not> radixPrefixed r"
  proof
    assume "radixPrefixed r"
    then obtain c1 es where r2: "r = CHR ''0'' # c1 # es" and c1: "c1 \<in> set ''xXoObB''"
      by (auto simp: radixPrefixed_def split: list.splits)
    from d have "is_radix_digit 10 c1" by (simp add: r2 radix_digits_def)
    then have "c1 \<notin> set ''xXoObB''" by (rule decimal_digit_facts)
    with c1 show False by blast
  qed
qed

lemma BigInt_trim: "BigInt s = BigInt (trim s)"
  by (simp only: BigInt_def trim_idem)

lemma BigInt_unprefixed:
  assumes "trim s = r" "r \<noteq> []" "\<not> radixPrefixed r"
  shows "BigInt s = signedInteger r"
proof -
  from assms(1,2) have n: "trim s \<noteq> []" by simp
  have "BigInt s = BigInt r" using BigInt_trim[of s] assms(1) by simp
  also have "\<dots> = signedInteger r"
    using assms(2) trim_ends[OF n] assms(3) unfolding assms(1) by (rule BigInt_plain)
  finally show ?thesis .
qed

lemma BigInt_decimal:
  assumes "trim s = r" "digitsOf ''0123456789'' r"
  shows "BigInt s = Inr (int (radix_value 10 r))"
proof -
  note d = dec_not_sign[OF assms(2)]
  have "BigInt s = signedInteger r" using assms(1) d(1,4) by (rule BigInt_unprefixed)
  also have "\<dots> = Inr (int (radix_value 10 r))"
    using d by (cases r) (simp_all add: signedInteger_def)
  finally show ?thesis .
qed

lemma BigInt_signed:
  assumes "trim s = c # ds" "c = CHR ''+'' \<or> c = CHR ''-''" "digitsOf ''0123456789'' ds"
  shows "BigInt s = Inr ((if c = CHR ''-'' then - 1 else 1) * int (radix_value 10 ds))"
proof -
  have "\<not> radixPrefixed (c # ds)"
    using assms(2) by (auto simp: radixPrefixed_def split: list.splits)
  with assms(1) have "BigInt s = signedInteger (c # ds)" by (intro BigInt_unprefixed) simp_all
  then show ?thesis
    using assms(2,3) by (auto simp: signedInteger_def radix_digits_chars)
qed

lemma BigInt_prefixed:
  assumes "trim s = CHR ''0'' # c1 # ds"
  shows "c1 \<in> set ''xX'' \<Longrightarrow> BigInt s = nonDecimal 16 ds"
    and "c1 \<in> set ''oO'' \<Longrightarrow> BigInt s = nonDecimal 8 ds"
    and "c1 \<in> set ''bB'' \<Longrightarrow> BigInt s = nonDecimal 2 ds"
  using assms by (auto simp: BigInt_def)

lemma nonDecimal_chars:
  "nonDecimal 16 ds = (if digitsOf ''0123456789abcdefABCDEF'' ds then Inr (int (radix_value 16 ds)) else Inl SyntaxError)"
  "nonDecimal 8 ds = (if digitsOf ''01234567'' ds then Inr (int (radix_value 8 ds)) else Inl SyntaxError)"
  "nonDecimal 2 ds = (if digitsOf ''01'' ds then Inr (int (radix_value 2 ds)) else Inl SyntaxError)"
  by (simp_all add: nonDecimal_def radix_digits_chars)


lemma signedInteger_fails:
  assumes "r \<noteq> []" "\<not> digitsOf ''0123456789'' r"
    and "\<not> (hd r \<in> set ''+-'' \<and> digitsOf ''0123456789'' (tl r))"
  shows "signedInteger r = Inl SyntaxError"
proof -
  from assms(1) obtain c ds where r: "r = c # ds" by (cases r) auto
  from assms(2) have a: "\<not> radix_digits 10 r" by (simp add: radix_digits_chars)
  from assms(3) have b: "c = CHR ''+'' \<or> c = CHR ''-'' \<Longrightarrow> \<not> radix_digits 10 ds"
    by (auto simp: r radix_digits_chars)
  show ?thesis
    using a b unfolding r signedInteger_def by (simp add: r)
qed

lemma BigInt_fails:
  assumes t: "trim s = r" and n: "r \<noteq> []" and l: "\<not> integerLiteral r"
  shows "BigInt s = Inl SyntaxError"
proof (cases "radixPrefixed r")
  case False
  from l have "\<not> digitsOf ''0123456789'' r"
    and "\<not> (hd r \<in> set ''+-'' \<and> digitsOf ''0123456789'' (tl r))"
    using n by (simp_all add: integerLiteral_def)
  with n have "signedInteger r = Inl SyntaxError" by (rule signedInteger_fails)
  with BigInt_unprefixed[OF t n False] show ?thesis by simp
next
  case True
  then obtain c1 ds where r: "r = CHR ''0'' # c1 # ds" and c1: "c1 \<in> set ''xXoObB''"
    by (auto simp: radixPrefixed_def split: list.splits)
  have tk: "take 2 r = [CHR ''0'', c1]" and dr: "drop 2 r = ds" by (simp_all add: r)
  from l have h: "\<not> (take 2 r \<in> set [''0x'', ''0X''] \<and> digitsOf ''0123456789abcdefABCDEF'' (drop 2 r))"
    and o: "\<not> (take 2 r \<in> set [''0o'', ''0O''] \<and> digitsOf ''01234567'' (drop 2 r))"
    and b: "\<not> (take 2 r \<in> set [''0b'', ''0B''] \<and> digitsOf ''01'' (drop 2 r))"
    by (simp_all add: integerLiteral_def)
  from c1 consider "c1 \<in> set ''xX''" | "c1 \<in> set ''oO''" | "c1 \<in> set ''bB''" by auto
  then show ?thesis
  proof cases
    case 1
    with h have "\<not> digitsOf ''0123456789abcdefABCDEF'' ds" unfolding tk dr by auto
    with BigInt_prefixed(1)[OF t[unfolded r] 1] show ?thesis by (simp add: nonDecimal_chars)
  next
    case 2
    with o have "\<not> digitsOf ''01234567'' ds" unfolding tk dr by auto
    with BigInt_prefixed(2)[OF t[unfolded r] 2] show ?thesis by (simp add: nonDecimal_chars)
  next
    case 3
    with b have "\<not> digitsOf ''01'' ds" unfolding tk dr by auto
    with BigInt_prefixed(3)[OF t[unfolded r] 3] show ?thesis by (simp add: nonDecimal_chars)
  qed
qed

lemma BigInt_radix:
  assumes "trim s = p @ ds"
  shows "p = ''0x'' \<or> p = ''0X'' \<Longrightarrow> digitsOf ''0123456789abcdefABCDEF'' ds \<Longrightarrow>
           BigInt s = Inr (int (radix_value 16 ds))"
    and "p = ''0o'' \<or> p = ''0O'' \<Longrightarrow> digitsOf ''01234567'' ds \<Longrightarrow>
           BigInt s = Inr (int (radix_value 8 ds))"
    and "p = ''0b'' \<or> p = ''0B'' \<Longrightarrow> digitsOf ''01'' ds \<Longrightarrow>
           BigInt s = Inr (int (radix_value 2 ds))"
proof -
  show "BigInt s = Inr (int (radix_value 16 ds))"
    if "p = ''0x'' \<or> p = ''0X''" "digitsOf ''0123456789abcdefABCDEF'' ds"
  proof -
    from that(1) obtain c1 where "trim s = CHR ''0'' # c1 # ds" "c1 \<in> set ''xX''"
      using assms by auto
    from BigInt_prefixed(1)[OF this] that(2) show ?thesis by (simp add: nonDecimal_chars)
  qed
  show "BigInt s = Inr (int (radix_value 8 ds))"
    if "p = ''0o'' \<or> p = ''0O''" "digitsOf ''01234567'' ds"
  proof -
    from that(1) obtain c1 where "trim s = CHR ''0'' # c1 # ds" "c1 \<in> set ''oO''"
      using assms by auto
    from BigInt_prefixed(2)[OF this] that(2) show ?thesis by (simp add: nonDecimal_chars)
  qed
  show "BigInt s = Inr (int (radix_value 2 ds))"
    if "p = ''0b'' \<or> p = ''0B''" "digitsOf ''01'' ds"
  proof -
    from that(1) obtain c1 where "trim s = CHR ''0'' # c1 # ds" "c1 \<in> set ''bB''"
      using assms by auto
    from BigInt_prefixed(3)[OF this] that(2) show ?thesis by (simp add: nonDecimal_chars)
  qed
qed


lemmas bigint_defs = parseValue_def trim_def is_ws_def isHex_def BigInt_def nonDecimal_def
  signedInteger_def radix_digits_def is_radix_digit_def digit_of_def radix_value_def
  endsWith_n_def Let_def

text \<open>
  Claim C4, as amended. White space is trimmed and, when the text is no \<open>0x\<close> literal
  and ends with \<open>n\<close>, that suffix is dropped; what is left (\<open>decimalText\<close>) goes to
  \<open>BigInt\<close>, which drops the white space around it and reads an empty rest as 0, a run
  of decimal digits with an optional sign in decimal, and an unsigned run of digits after
  \<open>0x 0X\<close>, \<open>0o 0O\<close> or \<open>0b 0B\<close> in that radix; any other text fails. So the rule
  of the specification (\<open>parseValue_spec\<close>) is what the code computes on every input the
  rule accepts, and on every input whose rest is not empty, has no white space before the
  \<open>n\<close> and has no radix prefix. \<open>0x10\<close> gives 16, \<open>10\<close> gives 10, \<open>10n\<close> gives 10
  and the empty text gives 0.
\<close>

theorem parseValue_rule:
  "(parseValue_spec v = Inr n \<longrightarrow> parseValue v = Inr n)
   \<and> (trim v = [] \<or> isHex (trim v)
        \<or> (decimalText v \<noteq> [] \<and> \<not> is_ws (last (decimalText v)) \<and> \<not> radixPrefixed (decimalText v))
       \<longrightarrow> parseValue v = parseValue_spec v)
   \<and> (trim (decimalText v) = [] \<longrightarrow> parseValue v = Inr 0)
   \<and> (digitsOf ''0123456789'' (trim (decimalText v)) \<longrightarrow>
        parseValue v = Inr (int (radix_value 10 (trim (decimalText v)))))
   \<and> (trim (decimalText v) = CHR ''+'' # ds \<and> digitsOf ''0123456789'' ds \<longrightarrow>
        parseValue v = Inr (int (radix_value 10 ds)))
   \<and> (trim (decimalText v) = CHR ''-'' # ds \<and> digitsOf ''0123456789'' ds \<longrightarrow>
        parseValue v = Inr (- int (radix_value 10 ds)))
   \<and> ((trim (decimalText v) = ''0x'' @ ds \<or> trim (decimalText v) = ''0X'' @ ds) \<and>
        digitsOf ''0123456789abcdefABCDEF'' ds \<longrightarrow>
        parseValue v = Inr (int (radix_value 16 ds)))
   \<and> ((trim (decimalText v) = ''0o'' @ ds \<or> trim (decimalText v) = ''0O'' @ ds) \<and>
        digitsOf ''01234567'' ds \<longrightarrow>
        parseValue v = Inr (int (radix_value 8 ds)))
   \<and> ((trim (decimalText v) = ''0b'' @ ds \<or> trim (decimalText v) = ''0B'' @ ds) \<and>
        digitsOf ''01'' ds \<longrightarrow>
        parseValue v = Inr (int (radix_value 2 ds)))
   \<and> (trim (decimalText v) \<noteq> [] \<and> \<not> integerLiteral (trim (decimalText v)) \<longrightarrow>
        parseValue v = Inl SyntaxError)
   \<and> parseValue ''0x10'' = Inr 16 \<and> parseValue ''10'' = Inr 10
   \<and> parseValue ''10n'' = Inr 10 \<and> parseValue [] = Inr 0
   \<and> parseValue ''n'' = Inr 0 \<and> parseValue ''1 n'' = Inr 1
   \<and> parseValue ''0o17'' = Inr 15 \<and> parseValue ''0b11n'' = Inr 3
   \<and> parseValue ''0X1f'' = Inr 31 \<and> parseValue ''-5'' = Inr (- 5)
   \<and> parseValue ''0xabcdefABCDEF'' = Inr 188900977659375
   \<and> parseValue ''1234567890'' = Inr 1234567890
   \<and> parseValue ''1.5'' = Inl SyntaxError \<and> parseValue ''0x'' = Inl SyntaxError
   \<and> parseValue ''1 0'' = Inl SyntaxError"
proof -
  have e: "trim v = [] \<Longrightarrow> parseValue v = parseValue_spec v"
    by (simp add: parseValue_def parseValue_spec_def)
  have two: "trim v = [] \<or> isHex (trim v)
        \<or> (decimalText v \<noteq> [] \<and> \<not> is_ws (last (decimalText v)) \<and> \<not> radixPrefixed (decimalText v))
       \<Longrightarrow> parseValue v = parseValue_spec v"
    using e parseValue_on_hex parseValue_on_plain by blast
  have one: "parseValue v = Inr n" if s: "parseValue_spec v = Inr n"
  proof (cases "trim v = [] \<or> isHex (trim v)")
    case True
    then show ?thesis using two s by metis
  next
    case False
    then have "signedInteger (decimalText v) = Inr n"
      using s by (auto simp: parseValue_spec_def decimalText_def hexLiteral_def Let_def split: if_splits)
    from signedInteger_shape[OF this] show ?thesis using two s by metis
  qed
  note p = parseValue_BigInt[of v]
  have a: "trim (decimalText v) = [] \<longrightarrow> parseValue v = Inr 0"
    unfolding p by (simp add: BigInt_empty)
  have b: "digitsOf ''0123456789'' (trim (decimalText v)) \<longrightarrow>
        parseValue v = Inr (int (radix_value 10 (trim (decimalText v))))"
    unfolding p using BigInt_decimal[OF refl, of "decimalText v"] by blast
  have c: "trim (decimalText v) = CHR ''+'' # ds \<and> digitsOf ''0123456789'' ds \<longrightarrow>
        parseValue v = Inr (int (radix_value 10 ds))"
    unfolding p using BigInt_signed[of "decimalText v" "CHR ''+''" ds] by simp
  have d: "trim (decimalText v) = CHR ''-'' # ds \<and> digitsOf ''0123456789'' ds \<longrightarrow>
        parseValue v = Inr (- int (radix_value 10 ds))"
    unfolding p using BigInt_signed[of "decimalText v" "CHR ''-''" ds] by simp
  have f: "(trim (decimalText v) = ''0x'' @ ds \<or> trim (decimalText v) = ''0X'' @ ds) \<and>
        digitsOf ''0123456789abcdefABCDEF'' ds \<longrightarrow>
        parseValue v = Inr (int (radix_value 16 ds))"
    unfolding p using BigInt_radix(1)[of "decimalText v" _ ds] by blast
  have g: "(trim (decimalText v) = ''0o'' @ ds \<or> trim (decimalText v) = ''0O'' @ ds) \<and>
        digitsOf ''01234567'' ds \<longrightarrow>
        parseValue v = Inr (int (radix_value 8 ds))"
    unfolding p using BigInt_radix(2)[of "decimalText v" _ ds] by blast
  have h: "(trim (decimalText v) = ''0b'' @ ds \<or> trim (decimalText v) = ''0B'' @ ds) \<and>
        digitsOf ''01'' ds \<longrightarrow>
        parseValue v = Inr (int (radix_value 2 ds))"
    unfolding p using BigInt_radix(3)[of "decimalText v" _ ds] by blast
  have i: "trim (decimalText v) \<noteq> [] \<and> \<not> integerLiteral (trim (decimalText v)) \<longrightarrow>
        parseValue v = Inl SyntaxError"
    unfolding p using BigInt_fails[OF refl, of "decimalText v"] by blast
  have x: "parseValue ''0x10'' = Inr 16" "parseValue ''10'' = Inr 10"
    "parseValue ''10n'' = Inr 10" "parseValue [] = Inr 0"
    "parseValue ''n'' = Inr 0" "parseValue ''1 n'' = Inr 1"
    "parseValue ''0o17'' = Inr 15" "parseValue ''0b11n'' = Inr 3"
    "parseValue ''0X1f'' = Inr 31" "parseValue ''-5'' = Inr (- 5)"
    "parseValue ''0xabcdefABCDEF'' = Inr 188900977659375"
    "parseValue ''1234567890'' = Inr 1234567890"
    "parseValue ''1.5'' = Inl SyntaxError" "parseValue ''0x'' = Inl SyntaxError"
    "parseValue ''1 0'' = Inl SyntaxError"
    by (simp_all add: bigint_defs)
  from one have one': "parseValue_spec v = Inr n \<longrightarrow> parseValue v = Inr n" by blast
  from two have two': "trim v = [] \<or> isHex (trim v)
        \<or> (decimalText v \<noteq> [] \<and> \<not> is_ws (last (decimalText v)) \<and> \<not> radixPrefixed (decimalText v))
       \<longrightarrow> parseValue v = parseValue_spec v" by blast
  show ?thesis
    by (intro conjI one' two' a b c d f g h i x)
qed


theorem parseValue_rule_witness:
  "parseValue '' -42n '' = Inr (- 42) \<and> parseValue ''  0x1F'' = Inr 31
   \<and> parseValue '' 0O17 n'' = Inr 15 \<and> parseValue ''12ab'' = Inl SyntaxError
   \<and> parseValue '' n '' = Inr 0"
proof -
  have 1: "parseValue_spec '' -42n '' = Inr (- 42)"
    by (simp add: parseValue_spec_def hexLiteral_def bigint_defs)
  have 2: "isHex (trim ''  0x1F'')" by (simp add: bigint_defs)
  have 3: "parseValue_spec ''  0x1F'' = Inr 31"
    by (simp add: parseValue_spec_def hexLiteral_def bigint_defs)
  have 4: "trim (decimalText '' 0O17 n'') = ''0O'' @ ''17''" "digitsOf ''01234567'' ''17''"
    "radix_value 8 ''17'' = 15"
    by (simp_all add: decimalText_def digitsOf_def bigint_defs)
  have 5: "trim (decimalText ''12ab'') \<noteq> []" "\<not> integerLiteral (trim (decimalText ''12ab''))"
    by (simp_all add: decimalText_def integerLiteral_def digitsOf_def bigint_defs)
  have 6: "trim (decimalText '' n '') = []"
    by (simp add: decimalText_def bigint_defs)
  from parseValue_rule[of "'' -42n ''" "- 42"] 1 have "parseValue '' -42n '' = Inr (- 42)"
    by blast
  moreover from parseValue_rule[of "''  0x1F''" 0] 2 3 have "parseValue ''  0x1F'' = Inr 31"
    by simp
  moreover from parseValue_rule[of "'' 0O17 n''" 0 "''17''"] 4
  have "parseValue '' 0O17 n'' = Inr 15" by simp
  moreover from parseValue_rule[of "''12ab''" 0 "[]"] 5
  have "parseValue ''12ab'' = Inl SyntaxError" by blast
  moreover from parseValue_rule[of "'' n ''" 0 "[]"] 6
  have "parseValue '' n '' = Inr 0" by blast
  ultimately show ?thesis by blast
qed

text \<open>
  Claim C4 as stated reads every text that is no \<open>0x\<close> literal as decimal and fails
  otherwise; \<open>0b11\<close> is no decimal integer, and the code returns 3 for it.
\<close>

theorem parseValue_radix_prefix_counterexample:
  "\<not> isHex ''0b11'' \<and> \<not> endsWith_n ''0b11'' \<and> signedInteger ''0b11'' = Inl SyntaxError
   \<and> parseValue_spec ''0b11'' = Inl SyntaxError \<and> parseValue ''0b11'' = Inr 3"
  by code_simp

section \<open>The normalizer\<close>

lemma radix_value_snoc:
  "radix_value b (ds @ [c]) = radix_value b ds * b + (case digit_of c of None \<Rightarrow> 0 | Some d \<Rightarrow> d)"
  by (simp add: radix_value_def)

lemma radix_value_bound:
  "list_all (is_radix_digit b) ds \<Longrightarrow> radix_value b ds < b ^ length ds"
proof (induction ds rule: rev_induct)
  case Nil
  then show ?case by (simp add: radix_value_def)
next
  case (snoc c ds)
  then have v: "radix_value b ds < b ^ length ds" by simp
  from snoc.prems obtain d where d: "digit_of c = Some d" "d < b"
    by (auto simp: is_radix_digit_def split: option.splits)
  from v have "radix_value b ds + 1 \<le> b ^ length ds" by simp
  then have "(radix_value b ds + 1) * b \<le> b ^ length ds * b" by (rule mult_le_mono1)
  then have "radix_value b ds * b + b \<le> b ^ Suc (length ds)" by (simp add: algebra_simps)
  with d show ?case by (simp add: radix_value_snoc)
qed

lemma radix_value_le:
  assumes "list_all (is_radix_digit b) ds" "length ds \<le> k" "0 < b"
  shows "radix_value b ds < b ^ k"
proof -
  have "radix_value b ds < b ^ length ds" using assms(1) by (rule radix_value_bound)
  also have "\<dots> \<le> b ^ k" using assms(2,3) by (simp add: power_increasing)
  finally show ?thesis .
qed

lemma pow_facts: "(16::nat) ^ 64 = 2 ^ 256" "(10::nat) ^ 77 < 2 ^ 256"
  by simp_all

lemma parseValue_uint256:
  assumes u: "uint256Text s" and p: "parseValue s = Inr n"
  shows "uint256 n"
proof -
  consider (e) "trim s = []" | (h) "isHex (trim s)" "length (trim s) \<le> 66"
    | (d) "trim s \<noteq> []" "radix_digits 10 (trim s)" "length (trim s) \<le> 77"
    using u by (auto simp: uint256Text_def Let_def)
  then show ?thesis
  proof cases
    case e
    with p show ?thesis by (simp add: parseValue_def uint256_def)
  next
    case h
    then obtain ds where t: "trim s = ''0x'' @ ds" and ds: "list_all (is_radix_digit 16) ds"
      unfolding isHex_iff by blast
    have tt: "trim (''0x'' @ ds) = ''0x'' @ ds" using trim_idem[of s] by (simp only: t)
    from p h(1) have "nonDecimal 16 ds = Inr n"
      using tt by (simp add: parseValue_def t BigInt_def Let_def)
    then have n: "n = int (radix_value 16 ds)"
      by (simp add: nonDecimal_def split: if_splits)
    from h(2) have "length ds \<le> 64" by (simp add: t)
    with ds have "radix_value 16 ds < 16 ^ 64" by (intro radix_value_le) simp_all
    then have "radix_value 16 ds < 2 ^ 256" by (simp only: pow_facts)
    then have "int (radix_value 16 ds) < 2 ^ 256"
      by (metis of_nat_less_iff of_nat_numeral of_nat_power)
    then show ?thesis by (simp add: n uint256_def)
  next
    case d
    from d(2) have all: "list_all (is_radix_digit 10) (trim s)" by (simp add: radix_digits_def)
    have l: "is_radix_digit 10 (last (trim s))" and f: "is_radix_digit 10 (hd (trim s))"
      using d(1) all by (auto simp: list_all_iff)
    have nh: "\<not> isHex (trim s)"
    proof
      assume "isHex (trim s)"
      then obtain ds where "trim s = ''0x'' @ ds" unfolding isHex_iff by blast
      with all have "is_radix_digit 10 CHR ''x''" by simp
      then show False by (simp add: is_radix_digit_def digit_of_def)
    qed
    have nn: "\<not> endsWith_n (trim s)"
      using decimal_digit_facts(3)[OF l] by (simp add: endsWith_n_def)
    have dt: "decimalText s = trim s" using nn by (simp add: decimalText_def)
    have sg: "signedInteger (trim s) = Inr (int (radix_value 10 (trim s)))"
      using d(1,2) decimal_digit_facts(4,5)[OF f]
      by (cases "trim s") (auto simp: signedInteger_def)
    then have "parseValue_spec s = Inr (int (radix_value 10 (trim s)))"
      using d(1) nh nn by (simp add: parseValue_spec_def hexLiteral_def Let_def)
    moreover have "parseValue s = parseValue_spec s"
      using d(1) nh signedInteger_shape[OF sg] by (intro parseValue_on_plain) (simp_all add: dt)
    ultimately have n: "n = int (radix_value 10 (trim s))" using p by simp
    from all d(3) have "radix_value 10 (trim s) < 10 ^ 77" by (intro radix_value_le) simp_all
    also have "(10::nat) ^ 77 < 2 ^ 256" by (rule pow_facts)
    finally have "int (radix_value 10 (trim s)) < 2 ^ 256"
      by (metis of_nat_less_iff of_nat_numeral of_nat_power)
    then show ?thesis by (simp add: n uint256_def)
  qed
qed

lemma buildUserOp_Some:
  "catch_null (buildUserOp s n ic cd cgl vgl pvg mf mp pm sg) = Some r \<longleftrightarrow>
     r = \<lparr> sender = s, nonce = projr n, initCode = projr ic, callData = projr cd,
           callGasLimit = projr cgl, verificationGasLimit = projr vgl,
           preVerificationGas = projr pvg, maxFeePerGas = projr mf,
           maxPriorityFeePerGas = projr mp, paymasterAndData = projr pm, signature = projr sg \<rparr>
     \<and> \<not> isl n \<and> \<not> isl ic \<and> \<not> isl cd \<and> \<not> isl cgl \<and> \<not> isl vgl \<and> \<not> isl pvg
     \<and> \<not> isl mf \<and> \<not> isl mp \<and> \<not> isl pm \<and> \<not> isl sg"
  by (cases n; cases ic; cases cd; cases cgl; cases vgl; cases pvg; cases mf; cases mp; cases pm; cases sg)
     (auto simp: buildUserOp_def bindE_def catch_null_def)

lemma fields_Some:
  "parsedUserOp J Fields raw f = Some r \<longleftrightarrow>
     r = \<lparr> sender = VStr (sender_in f), nonce = projr (parseValue (nonce_in f)),
           initCode = projr (parseHexValue (initCode_in f)),
           callData = projr (parseHexValue (callData_in f)),
           callGasLimit = projr (parseValue (callGasLimit_in f)),
           verificationGasLimit = projr (parseValue (verificationGasLimit_in f)),
           preVerificationGas = projr (parseValue (preVerificationGas_in f)),
           maxFeePerGas = projr (parseValue (maxFeePerGas_in f)),
           maxPriorityFeePerGas = projr (parseValue (maxPriorityFeePerGas_in f)),
           paymasterAndData = projr (parseHexValue (paymasterAndData_in f)),
           signature = projr (parseHexValue (signature_in f)) \<rparr>
     \<and> \<not> list_ex (\<lambda>s. isl (parseValue s)) (intInputs f)
     \<and> \<not> list_ex (\<lambda>s. isl (parseHexValue s)) (hexInputs f)"
  unfolding parsedUserOp_def intInputs_def hexInputs_def
  by (simp only: buildUserOp_Some InputMode.simps if_False list_ex_Nil_iff list_ex_Cons_iff) blast

lemma raw_Some:
  "parsedUserOp J Raw raw f = Some r \<longleftrightarrow>
     (\<exists>parsed. J raw = Some parsed \<and> parsed \<noteq> VNull \<and> parsed \<noteq> VUndefined \<and>
     r = \<lparr> sender = field_of parsed ''sender'',
           nonce = projr (parseValue (js_String (field_of parsed ''nonce''))),
           initCode = projr (parseHexValue_any (field_of parsed ''initCode'')),
           callData = projr (parseHexValue_any (field_of parsed ''callData'')),
           callGasLimit = projr (parseValue (js_String (field_of parsed ''callGasLimit''))),
           verificationGasLimit = projr (parseValue (js_String (field_of parsed ''verificationGasLimit''))),
           preVerificationGas = projr (parseValue (js_String (field_of parsed ''preVerificationGas''))),
           maxFeePerGas = projr (parseValue (js_String (field_of parsed ''maxFeePerGas''))),
           maxPriorityFeePerGas = projr (parseValue (js_String (field_of parsed ''maxPriorityFeePerGas''))),
           paymasterAndData = projr (parseHexValue_any (field_of parsed ''paymasterAndData'')),
           signature = projr (parseHexValue_any (field_of parsed ''signature'')) \<rparr>
     \<and> \<not> list_ex (\<lambda>k. isl (parseValue (js_String (field_of parsed k)))) intKeys
     \<and> \<not> list_ex (\<lambda>k. isl (parseHexValue_any (field_of parsed k))) hexKeys)"
proof (cases "J raw")
  case None
  then show ?thesis by (simp add: parsedUserOp_def parseUserOpFromRaw_def)
next
  case (Some parsed)
  show ?thesis
  proof (cases "parsed = VNull \<or> parsed = VUndefined")
    case True
    then show ?thesis using Some
      by (auto simp: parsedUserOp_def parseUserOpFromRaw_def get_prop_def)
  next
    case False
    then have g: "get_prop parsed ''sender'' = Inr (field_of parsed ''sender'')"
      by (cases parsed) (simp_all add: get_prop_def)
    show ?thesis
      unfolding parsedUserOp_def parseUserOpFromRaw_def intKeys_def hexKeys_def
      using False
      by (simp only: Some g option.simps sum.simps buildUserOp_Some if_True list_ex_Nil_iff list_ex_Cons_iff
          option.inject simp_thms ex_simps) blast
  qed
qed

lemma projr_Inr: "\<not> isl x \<Longrightarrow> x = Inr (projr x)"
  by (cases x) simp_all

lemma missing_int: "isl (parseValue (js_String VUndefined))"
proof -
  have "parseValue ''undefined'' = Inl SyntaxError"
    by (simp add: parseValue_def trim_def is_ws_def isHex_def BigInt_def signedInteger_def
        radix_digits_def is_radix_digit_def digit_of_def endsWith_n_def)
  then show ?thesis by simp
qed

lemma missing_hex: "isl (parseHexValue_any VUndefined)"
  by (simp add: parseHexValue_any_def)

lemma option_None_iff: "x = None \<longleftrightarrow> (\<forall>r. x \<noteq> Some r)"
  by (cases x) simp_all

text \<open>
  Claim C1, as amended. Normalization fails as a unit over the ten parsed fields. In
  fields mode the result is \<open>null\<close> exactly when one of the six integer texts or one
  of the four byte-string texts fails to parse. In raw mode it is \<open>null\<close> exactly
  when \<open>JSON.parse\<close> throws, the parsed value is \<open>null\<close>, or one of the ten
  fields, read from the parsed value, fails to parse; a missing one of the ten fields
  always fails. A record that is produced holds the parsed value of every one of the ten
  fields. The sender is copied without any check (in raw mode it may be missing).
\<close>

theorem normalize_fails_as_a_unit:
  "(parsedUserOp J Fields raw f = None \<longleftrightarrow>
      list_ex (\<lambda>s. isl (parseValue s)) (intInputs f) \<or>
      list_ex (\<lambda>s. isl (parseHexValue s)) (hexInputs f))
   \<and> (parsedUserOp J Raw raw f = None \<longleftrightarrow>
      (case J raw of
         None \<Rightarrow> True
       | Some parsed \<Rightarrow>
           parsed = VNull \<or> parsed = VUndefined \<or>
           list_ex (\<lambda>k. isl (parseValue (js_String (field_of parsed k)))) intKeys \<or>
           list_ex (\<lambda>k. isl (parseHexValue_any (field_of parsed k))) hexKeys))
   \<and> (J raw = Some parsed \<and> list_ex (\<lambda>k. field_of parsed k = VUndefined) (intKeys @ hexKeys)
        \<longrightarrow> parsedUserOp J Raw raw f = None)
   \<and> (parsedUserOp J Fields raw f = Some r \<longrightarrow>
        sender r = VStr (sender_in f) \<and>
        list_all2 (\<lambda>s n. parseValue s = Inr n) (intInputs f) (intFields r) \<and>
        list_all2 (\<lambda>s h. parseHexValue s = Inr h) (hexInputs f) (hexFields r))
   \<and> (parsedUserOp J Raw raw f = Some r \<and> J raw = Some parsed \<longrightarrow>
        sender r = field_of parsed ''sender'' \<and>
        list_all2 (\<lambda>k n. parseValue (js_String (field_of parsed k)) = Inr n) intKeys (intFields r) \<and>
        list_all2 (\<lambda>k h. parseHexValue_any (field_of parsed k) = Inr h) hexKeys (hexFields r))"
proof -
  have a: "parsedUserOp J Fields raw f = None \<longleftrightarrow>
      list_ex (\<lambda>s. isl (parseValue s)) (intInputs f) \<or>
      list_ex (\<lambda>s. isl (parseHexValue s)) (hexInputs f)"
    unfolding option_None_iff[of "parsedUserOp J Fields raw f"] fields_Some by blast
  have b: "parsedUserOp J Raw raw f = None \<longleftrightarrow>
      (case J raw of
         None \<Rightarrow> True
       | Some parsed \<Rightarrow>
           parsed = VNull \<or> parsed = VUndefined \<or>
           list_ex (\<lambda>k. isl (parseValue (js_String (field_of parsed k)))) intKeys \<or>
           list_ex (\<lambda>k. isl (parseHexValue_any (field_of parsed k))) hexKeys)"
    unfolding option_None_iff[of "parsedUserOp J Raw raw f"] raw_Some
    by (cases "J raw") auto
  have c: "parsedUserOp J Raw raw f = None"
    if "J raw = Some parsed \<and> list_ex (\<lambda>k. field_of parsed k = VUndefined) (intKeys @ hexKeys)"
  proof -
    from that obtain k where k: "k \<in> set intKeys \<or> k \<in> set hexKeys" "field_of parsed k = VUndefined"
      by (auto simp: list_ex_iff)
    then have "list_ex (\<lambda>k. isl (parseValue (js_String (field_of parsed k)))) intKeys \<or>
           list_ex (\<lambda>k. isl (parseHexValue_any (field_of parsed k))) hexKeys"
      using missing_int missing_hex unfolding list_ex_iff by metis
    with that show ?thesis by (simp add: b)
  qed
  have d: "sender r = VStr (sender_in f) \<and>
        list_all2 (\<lambda>s n. parseValue s = Inr n) (intInputs f) (intFields r) \<and>
        list_all2 (\<lambda>s h. parseHexValue s = Inr h) (hexInputs f) (hexFields r)"
    if "parsedUserOp J Fields raw f = Some r"
    using that[unfolded fields_Some]
    by (simp add: intInputs_def intFields_def hexInputs_def hexFields_def projr_Inr)
  have e: "sender r = field_of parsed ''sender'' \<and>
        list_all2 (\<lambda>k n. parseValue (js_String (field_of parsed k)) = Inr n) intKeys (intFields r) \<and>
        list_all2 (\<lambda>k h. parseHexValue_any (field_of parsed k) = Inr h) hexKeys (hexFields r)"
    if "parsedUserOp J Raw raw f = Some r \<and> J raw = Some parsed"
    using that[unfolded raw_Some]
    by (auto simp add: intKeys_def intFields_def hexKeys_def hexFields_def projr_Inr)
  from a b c d e show ?thesis by blast
qed

lemma buildUserOp_Inr:
  "catch_null (buildUserOp s (Inr n) (Inr ic) (Inr cd) (Inr cgl) (Inr vgl) (Inr pvg) (Inr mf)
     (Inr mp) (Inr pm) (Inr sg)) =
   Some \<lparr> sender = s, nonce = n, initCode = ic, callData = cd, callGasLimit = cgl,
          verificationGasLimit = vgl, preVerificationGas = pvg, maxFeePerGas = mf,
          maxPriorityFeePerGas = mp, paymasterAndData = pm, signature = sg \<rparr>"
  by (simp add: buildUserOp_def bindE_def catch_null_def)

lemmas parse_defs = parseValue_def parseHexValue_def trim_def is_ws_def isHex_def BigInt_def
  nonDecimal_def signedInteger_def radix_digits_def is_radix_digit_def digit_of_def
  radix_value_def endsWith_n_def Let_def

lemma parse_examples:
  "parseValue [] = Inr 0" "parseHexValue ''0x'' = Inr ''0x''" "parseValue ''0xff'' = Inr 255"
  "parseValue ''21000'' = Inr 21000" "parseValue ''-1'' = Inr (- 1)" "parseValue ''7'' = Inr 7"
  "parseValue ''0x10'' = Inr 16" "parseValue ''1'' = Inr 1"
  by (simp_all add: parse_defs)

lemma parse_2_256:
  "parseValue ''0x10000000000000000000000000000000000000000000000000000000000000000'' = Inr (2 ^ 256)"
  by (simp add: parse_defs)

theorem normalize_fails_as_a_unit_witness:
  "parsedUserOp exampleJSON Fields []
     (defaultFields \<lparr> sender_in := ''0xabc'', nonce_in := ''not-a-number'' \<rparr>) = None
   \<and> parsedUserOp exampleJSON Raw ''{\"sender\":\"0xabc\",\"nonce\":\"not-a-number\"}'' defaultFields = None
   \<and> parsedUserOp exampleJSON Raw ''{}'' defaultFields = None
   \<and> parsedUserOp exampleJSON Raw ''{'' defaultFields = None"
proof -
  let ?f = "defaultFields \<lparr> sender_in := ''0xabc'', nonce_in := ''not-a-number'' \<rparr>"
  let ?r2 = "''{\"sender\":\"0xabc\",\"nonce\":\"not-a-number\"}''"
  have n: "isl (parseValue ''not-a-number'')" by (simp add: parse_defs)
  then have 1: "list_ex (\<lambda>s. isl (parseValue s)) (intInputs ?f)"
    by (simp add: intInputs_def defaultFields_def)
  have j2: "exampleJSON ?r2 = Some (VObj [(''sender'', VStr ''0xabc''), (''nonce'', VStr ''not-a-number'')])"
    by (simp add: exampleJSON_def)
  have 2: "list_ex (\<lambda>k. isl (parseValue (js_String (field_of (VObj [(''sender'', VStr ''0xabc''), (''nonce'', VStr ''not-a-number'')]) k)))) intKeys"
    using n by (simp add: intKeys_def field_of_def field_def)
  have j3: "exampleJSON ''{}'' = Some (VObj [])" by (simp add: exampleJSON_def)
  have 3: "list_ex (\<lambda>k. field_of (VObj []) k = VUndefined) (intKeys @ hexKeys)"
    by (simp add: intKeys_def field_of_def field_def)
  have j4: "exampleJSON ''{'' = None" by (simp add: exampleJSON_def)
  have "parsedUserOp exampleJSON Fields [] ?f = None"
    using normalize_fails_as_a_unit[of exampleJSON "[]" ?f] 1 by blast
  moreover have "parsedUserOp exampleJSON Raw ?r2 defaultFields = None"
    using normalize_fails_as_a_unit[of exampleJSON ?r2 defaultFields] 2 by (simp add: j2)
  moreover have "parsedUserOp exampleJSON Raw ''{}'' defaultFields = None"
    using normalize_fails_as_a_unit[of exampleJSON "''{}''" _ "VObj []"] 3 j3 by blast
  moreover have "parsedUserOp exampleJSON Raw ''{'' defaultFields = None"
    using normalize_fails_as_a_unit[of exampleJSON "''{''" defaultFields] by (simp add: j4)
  ultimately show ?thesis by blast
qed

text \<open>
  Claim C1 as stated lets a malformed, or in raw mode missing, sender fail the
  normalization; the code returns a full record in both cases.
\<close>

theorem normalize_sender_unchecked_counterexample:
  "\<not> addressText ''not-an-address''
   \<and> parsedUserOp exampleJSON Fields [] (defaultFields \<lparr> sender_in := ''not-an-address'' \<rparr>) =
       Some \<lparr> sender = VStr ''not-an-address'', nonce = 0, initCode = ''0x'', callData = ''0x'',
              callGasLimit = 0, verificationGasLimit = 0, preVerificationGas = 0,
              maxFeePerGas = 0, maxPriorityFeePerGas = 0, paymasterAndData = ''0x'',
              signature = ''0x'' \<rparr>
   \<and> parsedUserOp exampleJSON Raw ''{\"nonce\":7,\"initCode\":\"0x\",\"callData\":\"0x\",\"callGasLimit\":\"0x10\",\"verificationGasLimit\":\"\",\"preVerificationGas\":\"21000\",\"maxFeePerGas\":\"1\",\"maxPriorityFeePerGas\":\"1\",\"paymasterAndData\":\"0x\",\"signature\":\"0x\"}'' defaultFields =
       Some \<lparr> sender = VUndefined, nonce = 7, initCode = ''0x'', callData = ''0x'',
              callGasLimit = 16, verificationGasLimit = 0, preVerificationGas = 21000,
              maxFeePerGas = 1, maxPriorityFeePerGas = 1, paymasterAndData = ''0x'',
              signature = ''0x'' \<rparr>"
proof -
  have 1: "\<not> addressText ''not-an-address''" by (simp add: addressText_def)
  have 2: "parsedUserOp exampleJSON Fields [] (defaultFields \<lparr> sender_in := ''not-an-address'' \<rparr>) =
       Some \<lparr> sender = VStr ''not-an-address'', nonce = 0, initCode = ''0x'', callData = ''0x'',
              callGasLimit = 0, verificationGasLimit = 0, preVerificationGas = 0,
              maxFeePerGas = 0, maxPriorityFeePerGas = 0, paymasterAndData = ''0x'',
              signature = ''0x'' \<rparr>"
    by (simp add: parsedUserOp_def defaultFields_def parse_examples buildUserOp_Inr)
  have 3: "parsedUserOp exampleJSON Raw ''{\"nonce\":7,\"initCode\":\"0x\",\"callData\":\"0x\",\"callGasLimit\":\"0x10\",\"verificationGasLimit\":\"\",\"preVerificationGas\":\"21000\",\"maxFeePerGas\":\"1\",\"maxPriorityFeePerGas\":\"1\",\"paymasterAndData\":\"0x\",\"signature\":\"0x\"}'' defaultFields =
       Some \<lparr> sender = VUndefined, nonce = 7, initCode = ''0x'', callData = ''0x'',
              callGasLimit = 16, verificationGasLimit = 0, preVerificationGas = 21000,
              maxFeePerGas = 1, maxPriorityFeePerGas = 1, paymasterAndData = ''0x'',
              signature = ''0x'' \<rparr>"
    by (simp add: parsedUserOp_def parseUserOpFromRaw_def exampleJSON_def get_prop_def
        field_of_def field_def parseHexValue_any_def parse_examples buildUserOp_Inr)
  from 1 2 3 show ?thesis by blast
qed

text \<open>
  Claim C3, as amended. Every integer field of a record that the normalizer produces is
  the exact value of its text, with no range check. It is non-negative and below
  \<open>2^256\<close> whenever the text, trimmed, is empty, \<open>0x\<close> followed by at most 64
  hexadecimal digits, or at most 77 decimal digits.
\<close>

theorem integer_fields_exact:
  "(parsedUserOp J Fields raw f = Some r \<longrightarrow>
      list_all2 (\<lambda>s n. parseValue s = Inr n \<and> (uint256Text s \<longrightarrow> uint256 n))
        (intInputs f) (intFields r))
   \<and> (parsedUserOp J Raw raw f = Some r \<and> J raw = Some parsed \<longrightarrow>
      list_all2 (\<lambda>s n. parseValue s = Inr n \<and> (uint256Text s \<longrightarrow> uint256 n))
        (map (\<lambda>k. js_String (field_of parsed k)) intKeys) (intFields r))"
proof -
  have u: "uint256Text s \<longrightarrow> uint256 (projr (parseValue s))" if "\<not> isl (parseValue s)" for s
    using that parseValue_uint256[of s "projr (parseValue s)"] by (simp add: projr_Inr)
  have a: "list_all2 (\<lambda>s n. parseValue s = Inr n \<and> (uint256Text s \<longrightarrow> uint256 n))
        (intInputs f) (intFields r)" if "parsedUserOp J Fields raw f = Some r"
    using that[unfolded fields_Some]
    by (simp add: intInputs_def intFields_def projr_Inr u)
  have b: "list_all2 (\<lambda>s n. parseValue s = Inr n \<and> (uint256Text s \<longrightarrow> uint256 n))
        (map (\<lambda>k. js_String (field_of parsed k)) intKeys) (intFields r)"
    if "parsedUserOp J Raw raw f = Some r \<and> J raw = Some parsed"
    using that[unfolded raw_Some]
    by (auto simp add: intKeys_def intFields_def projr_Inr u)
  from a b show ?thesis by blast
qed

theorem integer_fields_exact_witness:
  "list_all uint256 (intFields
     \<lparr> sender = VStr [], nonce = 255, initCode = ''0x'', callData = ''0x'',
       callGasLimit = 21000, verificationGasLimit = 0, preVerificationGas = 0,
       maxFeePerGas = 0, maxPriorityFeePerGas = 0, paymasterAndData = ''0x'',
       signature = ''0x'' \<rparr>)"
proof -
  let ?f = "defaultFields \<lparr> nonce_in := ''0xff'', callGasLimit_in := ''21000'' \<rparr>"
  let ?r = "\<lparr> sender = VStr [], nonce = 255, initCode = ''0x'', callData = ''0x'',
       callGasLimit = 21000, verificationGasLimit = 0, preVerificationGas = 0,
       maxFeePerGas = 0, maxPriorityFeePerGas = 0, paymasterAndData = ''0x'',
       signature = ''0x'' \<rparr>"
  have p: "parsedUserOp exampleJSON Fields [] ?f = Some ?r"
    by (simp add: parsedUserOp_def defaultFields_def parse_examples buildUserOp_Inr)
  have "uint256Text []" "uint256Text ''0xff''" "uint256Text ''21000''"
    by (simp_all add: uint256Text_def parse_defs)
  then have t: "list_all uint256Text (intInputs ?f)"
    by (simp add: intInputs_def defaultFields_def)
  from integer_fields_exact[of exampleJSON "[]" ?f ?r] p
  have "list_all2 (\<lambda>s n. parseValue s = Inr n \<and> (uint256Text s \<longrightarrow> uint256 n))
        (intInputs ?f) (intFields ?r)" by blast
  then have "list_all2 (\<lambda>s n. uint256Text s \<longrightarrow> uint256 n) (intInputs ?f) (intFields ?r)"
    by (rule list_all2_mono) blast
  with t show ?thesis
    by (simp add: intInputs_def intFields_def defaultFields_def)
qed

text \<open>
  Claim C3 as stated bounds every integer field of every record; the texts \<open>-1\<close> and
  \<open>0x1\<close> followed by 64 zeros are accepted and give \<open>-1\<close> and \<open>2^256\<close>.
\<close>

theorem integer_fields_range_counterexample:
  "\<not> uint256 (- 1) \<and> \<not> uint256 (2 ^ 256)
   \<and> parsedUserOp exampleJSON Fields []
       (defaultFields \<lparr> nonce_in := ''-1'',
          callGasLimit_in := ''0x10000000000000000000000000000000000000000000000000000000000000000'' \<rparr>) =
       Some \<lparr> sender = VStr [], nonce = - 1, initCode = ''0x'', callData = ''0x'',
              callGasLimit = 2 ^ 256, verificationGasLimit = 0, preVerificationGas = 0,
              maxFeePerGas = 0, maxPriorityFeePerGas = 0, paymasterAndData = ''0x'',
              signature = ''0x'' \<rparr>"
proof -
  have "\<not> uint256 (- 1)" "\<not> uint256 (2 ^ 256)" by (simp_all add: uint256_def)
  then show ?thesis
    by (simp add: parsedUserOp_def defaultFields_def parse_examples parse_2_256 buildUserOp_Inr)
qed

section \<open>The hash comparison\<close>

lemma is_ws_toLowerCase_char: "is_ws (toLowerCase_char c) = is_ws c"
proof -
  have b: "(of_char c :: nat) < 256" by simp
  show ?thesis
    using b by (auto simp: toLowerCase_char_def is_ws_def Let_def)
qed

lemma toLowerCase_dropWhile: "toLowerCase (dropWhile is_ws s) = dropWhile is_ws (toLowerCase s)"
proof -
  have "is_ws \<circ> toLowerCase_char = is_ws" by (rule ext) (simp add: is_ws_toLowerCase_char)
  then show ?thesis by (simp add: toLowerCase_def dropWhile_map)
qed

lemma toLowerCase_rev: "toLowerCase (rev s) = rev (toLowerCase s)"
  by (simp add: toLowerCase_def rev_map)

lemma toLowerCase_trim: "toLowerCase (trim s) = trim (toLowerCase s)"
  by (simp only: trim_def toLowerCase_rev toLowerCase_dropWhile)

lemma toLowerCase_Nil_iff: "toLowerCase s = [] \<longleftrightarrow> s = []"
  by (simp add: toLowerCase_def)

lemma toLowerCase_Nil: "toLowerCase [] = []"
  by (simp add: toLowerCase_def)

lemma normalizedExpectedHash_pad:
  assumes "toLowerCase e' = toLowerCase e" "list_all is_ws l" "list_all is_ws r"
  shows "normalizedExpectedHash (l @ e' @ r) = normalizedExpectedHash e"
  using assms by (simp add: normalizedExpectedHash_def trim_pad toLowerCase_trim)

lemma normalizedComputedHash_case:
  assumes "map_option toLowerCase c' = map_option toLowerCase c"
  shows "normalizedComputedHash c' = normalizedComputedHash c"
    and "(case c' of None \<Rightarrow> False | Some h \<Rightarrow> h \<noteq> []) = (case c of None \<Rightarrow> False | Some h \<Rightarrow> h \<noteq> [])"
proof -
  show "normalizedComputedHash c' = normalizedComputedHash c"
    using assms by (cases c; cases c') (simp_all add: normalizedComputedHash_def)
  show "(case c' of None \<Rightarrow> False | Some h \<Rightarrow> h \<noteq> []) = (case c of None \<Rightarrow> False | Some h \<Rightarrow> h \<noteq> [])"
    using assms toLowerCase_Nil_iff by (cases c; cases c') (simp_all, metis)
qed

text \<open>
  Claim C10. The comparison of the expected with the computed hash ignores the case of
  letters in both and the white space around the expected one: rewriting either hash in
  another case, or padding the expected hash with white space, changes neither the value
  of \<open>hashesMatch\<close> nor the verdict of the page. A verdict is shown only when the
  expected hash, trimmed, is not empty and a computed hash is present, and it is a match
  exactly when the two normalized hashes are equal.
\<close>

theorem hash_comparison_insensitive:
  assumes "toLowerCase e' = toLowerCase e"
    and "map_option toLowerCase c' = map_option toLowerCase c"
    and "list_all is_ws l" and "list_all is_ws r"
  shows "hashesMatch (l @ e' @ r) c' = hashesMatch e c
     \<and> hashComparison (l @ e' @ r) c' = hashComparison e c
     \<and> (hashComparison e c \<noteq> None \<longleftrightarrow> trim e \<noteq> [] \<and> (\<exists>h. c = Some h \<and> h \<noteq> []))
     \<and> (hashComparison e c \<noteq> None \<longrightarrow> e \<noteq> [] \<and> c \<noteq> None)
     \<and> (hashComparison e c = Some True \<longleftrightarrow>
          trim e \<noteq> [] \<and> (\<exists>h. c = Some h \<and> toLowerCase (trim e) = toLowerCase h))"
proof -
  note n = normalizedExpectedHash_pad[OF assms(1,3,4)]
  note m = normalizedComputedHash_case[OF assms(2)]
  have 1: "hashesMatch (l @ e' @ r) c' = hashesMatch e c"
    by (simp only: hashesMatch_def n m)
  have 2: "hashComparison (l @ e' @ r) c' = hashComparison e c"
    by (simp only: hashComparison_def n m 1)
  have ne: "normalizedExpectedHash e \<noteq> [] \<longleftrightarrow> trim e \<noteq> []"
    by (simp add: normalizedExpectedHash_def toLowerCase_Nil_iff)
  have 3: "hashComparison e c \<noteq> None \<longleftrightarrow> trim e \<noteq> [] \<and> (\<exists>h. c = Some h \<and> h \<noteq> [])"
    by (cases c) (simp_all add: hashComparison_def ne)
  have t: "trim e \<noteq> [] \<Longrightarrow> e \<noteq> []" by (auto simp: trim_Nil)
  have 4: "hashComparison e c \<noteq> None \<longrightarrow> e \<noteq> [] \<and> c \<noteq> None"
    using 3 t by auto
  have 5: "hashComparison e c = Some True \<longleftrightarrow>
          trim e \<noteq> [] \<and> (\<exists>h. c = Some h \<and> toLowerCase (trim e) = toLowerCase h)"
    by (cases c) (auto simp: hashComparison_def hashesMatch_def js_and_def ne
        normalizedComputedHash_def normalizedExpectedHash_def toLowerCase_Nil_iff toLowerCase_Nil)
  from 1 2 3 4 5 show ?thesis by blast
qed

theorem hash_comparison_insensitive_witness:
  "hashesMatch ''  0xABCDEF '' (Some ''0xabCDef'') = hashesMatch ''0xabcdef'' (Some ''0xABCDEF'')
   \<and> hashComparison ''  0xABCDEF '' (Some ''0xabCDef'') = hashComparison ''0xabcdef'' (Some ''0xABCDEF'')
   \<and> hashComparison ''0xabcdef'' (Some ''0xABCDEF'') = Some True"
proof -
  have 1: "toLowerCase ''0xABCDEF'' = toLowerCase ''0xabcdef''"
    and 2: "map_option toLowerCase (Some ''0xabCDef'') = map_option toLowerCase (Some ''0xABCDEF'')"
    and 5: "toLowerCase (trim ''0xabcdef'') = toLowerCase ''0xABCDEF''"
    and 6: "trim ''0xabcdef'' \<noteq> []"
    by (simp_all add: toLowerCase_def toLowerCase_char_def char_of_def bit_Suc_0_iff trim_def is_ws_def)
  have 3: "list_all is_ws ''  ''" and 4: "list_all is_ws '' ''"
    by (simp_all add: is_ws_def)
  have "hashComparison ''0xabcdef'' (Some ''0xABCDEF'') = Some True"
    using hash_comparison_insensitive[OF 1 2 3 4] 5 6 by blast
  then show ?thesis
    using hash_comparison_insensitive[OF 1 2 3 4] by simp
qed

section \<open>Rendering of parameter types\<close>












section \<open>The enrichment of decoded arguments\<close>

lemma promise_fold:
  "length vs = length xs \<Longrightarrow>
   length (foldl (\<lambda>vs i. if i < length vs then vs[i := Some (xs ! i)] else vs) vs order) = length xs
   \<and> (\<forall>j<length xs.
        foldl (\<lambda>vs i. if i < length vs then vs[i := Some (xs ! i)] else vs) vs order ! j =
        (if j \<in> set order then Some (xs ! j) else vs ! j))"
proof (induction order arbitrary: vs)
  case Nil
  then show ?case by simp
next
  case (Cons i order)
  let ?vs = "if i < length vs then vs[i := Some (xs ! i)] else vs"
  have l: "length ?vs = length xs" using Cons.prems by simp
  have n: "?vs ! j = (if j = i then Some (xs ! i) else vs ! j)" if "j < length xs" for j
    using that Cons.prems by (simp add: nth_list_update)
  from Cons.IH[OF l] n Cons.prems show ?case by simp
qed

lemma promise_all_complete:
  assumes "set order = {0..<length xs}"
  shows "promise_all order xs = Some xs"
proof -
  define vals where
    "vals = foldl (\<lambda>vs i. if i < length vs then vs[i := Some (xs ! i)] else vs)
          (replicate (length xs) None) order"
  have "length (replicate (length xs) (None :: 'a option)) = length xs" by simp
  from promise_fold[OF this, of order]
  have len: "length vals = length xs"
    and nth: "\<forall>j<length xs. vals ! j = Some (xs ! j)"
    unfolding vals_def using assms by auto
  have a: "list_all (\<lambda>v. v \<noteq> None) vals"
    unfolding list_all_length using len nth by simp
  have b: "map the vals = xs"
    by (rule nth_equalityI) (simp_all add: len nth)
  show ?thesis
    unfolding promise_all_def vals_def[symmetric] Let_def using a b by simp
qed


lemma map_of_update_key:
  "k \<in> fst ` set a \<Longrightarrow>
   map_of (map (\<lambda>(k', v'). if k' = k then (k', v) else (k', v')) a) k = Some v"
proof (induction a)
  case Nil
  then show ?case by simp
next
  case (Cons x a)
  obtain k0 v0 where x: "x = (k0, v0)" by (cases x)
  show ?case
  proof (cases "k0 = k")
    case True
    then show ?thesis by (simp add: x)
  next
    case False
    with Cons.prems have "k \<in> fst ` set a" by (simp add: x)
    from Cons.IH[OF this] False show ?thesis by (simp add: x)
  qed
qed

lemma map_of_update_other:
  "k' \<noteq> k \<Longrightarrow>
   map_of (map (\<lambda>(k'', v'). if k'' = k then (k'', v) else (k'', v')) a) k' = map_of a k'"
proof (induction a)
  case Nil
  then show ?case by simp
next
  case (Cons x a)
  obtain k0 v0 where x: "x = (k0, v0)" by (cases x)
  from Cons show ?case by (simp add: x)
qed

lemma map_of_obj_set: "map_of (obj_set a k v) k = Some v"
proof (cases "k \<in> fst ` set a")
  case True
  then show ?thesis by (simp add: obj_set_def map_of_update_key)
next
  case False
  then have "map_of a k = None" by (simp add: map_of_eq_None_iff)
  with False show ?thesis by (simp add: obj_set_def map_add_def)
qed

lemma map_of_obj_set_other: "k' \<noteq> k \<Longrightarrow> map_of (obj_set a k v) k' = map_of a k'"
  by (cases "k \<in> fst ` set a")
     (simp_all add: obj_set_def map_of_update_other map_add_def split: option.splits)

lemma field_obj_set: "field (obj_set a k v) k = v"
  by (simp add: field_def map_of_obj_set)

lemma field_obj_set_other: "k' \<noteq> k \<Longrightarrow> field (obj_set a k v) k' = field a k'"
  by (simp add: field_def map_of_obj_set_other)

lemma enrichObject_cases:
  "enrichObject C a = VObj a \<or>
   (\<exists>d. enrichObject C a = VObj (obj_set a ''decodedCall'' d))"
  by (auto simp: enrichObject_def split: option.splits sum.splits prod.splits)

lemma annotated_enrichObject: "annotated (VObj a) (enrichObject C a)"
  using enrichObject_cases[of C a] by (auto simp: map_of_obj_set)

lemma enrichEach_length:
  "enrichEach C ord p i xs = Some ys \<Longrightarrow> length ys = length xs"
  by (induction xs arbitrary: i ys) (auto split: option.splits)

lemma enrichEach_nth:
  "enrichEach C ord p i xs = Some ys \<Longrightarrow> j < length xs \<Longrightarrow>
   enrichArg C ord (p @ [i + j]) (xs ! j) = Some (ys ! j)"
proof (induction xs arbitrary: i ys j)
  case Nil
  then show ?case by simp
next
  case (Cons x xs)
  from Cons.prems(1) obtain y zs where y: "enrichArg C ord (p @ [i]) x = Some y"
    and zs: "enrichEach C ord p (Suc i) xs = Some zs" and ys: "ys = y # zs"
    by (auto split: option.splits)
  show ?case
  proof (cases j)
    case 0
    then show ?thesis using y ys by simp
  next
    case (Suc j')
    with Cons.prems(2) have "j' < length xs" by simp
    from Cons.IH[OF zs this] show ?thesis using Suc ys by simp
  qed
qed

lemma enrichEach_indep:
  assumes "\<And>x q q'. x \<in> set xs \<Longrightarrow>
     enrichArg C ord q x = enrichArg C ord' q' x \<and> enrichArg C ord q x \<noteq> None"
  shows "enrichEach C ord p i xs = enrichEach C ord' p' i' xs \<and> enrichEach C ord p i xs \<noteq> None"
  using assms
proof (induction xs arbitrary: i i')
  case Nil
  then show ?case by simp
next
  case (Cons x xs)
  have x: "enrichArg C ord (p @ [i]) x = enrichArg C ord' (p' @ [i']) x"
    "enrichArg C ord (p @ [i]) x \<noteq> None"
    using Cons.prems[of x] by simp_all
  have r: "enrichEach C ord p (Suc i) xs = enrichEach C ord' p' (Suc i') xs \<and>
           enrichEach C ord p (Suc i) xs \<noteq> None"
    by (rule Cons.IH) (simp add: Cons.prems)
  from x r show ?case by (auto split: option.splits)
qed

lemma promise_all_settles:
  assumes "settlesAll ord" "length ys = n"
  shows "promise_all (ord p n) ys = Some ys"
  using assms by (intro promise_all_complete) (simp add: settlesAll_def)

lemma enrichArg_indep:
  assumes o: "settlesAll ord" and o': "settlesAll ord'"
  shows "enrichArg C ord p x = enrichArg C ord' p' x \<and> enrichArg C ord p x \<noteq> None"
proof (induction x arbitrary: p p')
  case (VArr xs)
  have e: "enrichEach C ord p 0 xs = enrichEach C ord' p' 0 xs \<and> enrichEach C ord p 0 xs \<noteq> None"
    by (rule enrichEach_indep) (rule VArr.IH)
  from e have "enrichEach C ord p 0 xs \<noteq> None" by (rule conjunct2)
  then obtain ys where ys1: "enrichEach C ord p 0 xs = Some ys" by blast
  with e have ys: "enrichEach C ord p 0 xs = Some ys" "enrichEach C ord' p' 0 xs = Some ys"
    by simp_all
  have l: "length ys = length xs" using ys(1) by (rule enrichEach_length)
  show ?case
    using ys promise_all_settles[OF o l] promise_all_settles[OF o' l] by simp
qed simp_all

lemma enrichArg_VArr:
  "enrichArg C ord p (VArr xs) = map_option VArr (enrichArgs C ord p xs)"
  by (simp add: enrichArgs_def split: option.splits)

lemma enrichArgs_positional:
  assumes o: "settlesAll ord"
  shows "\<exists>ys. enrichArgs C ord p xs = Some ys \<and> length ys = length xs \<and>
           (\<forall>j<length xs. enrichArg C ord (p @ [j]) (xs ! j) = Some (ys ! j))"
proof -
  have "enrichEach C ord p 0 xs \<noteq> None"
    using enrichEach_indep[of xs C ord ord p 0 p 0] enrichArg_indep[OF o o] by blast
  then obtain ys where ys: "enrichEach C ord p 0 xs = Some ys" by auto
  have l: "length ys = length xs" using ys by (rule enrichEach_length)
  have "enrichArgs C ord p xs = Some ys"
    using ys promise_all_settles[OF o l] by (simp add: enrichArgs_def)
  moreover have "\<forall>j<length xs. enrichArg C ord (p @ [j]) (xs ! j) = Some (ys ! j)"
    using enrichEach_nth[OF ys] by simp
  ultimately show ?thesis using l by blast
qed

lemma enrichArgs_indep:
  assumes o: "settlesAll ord" and o': "settlesAll ord'"
  shows "enrichArgs C ord p xs = enrichArgs C ord' p' xs"
proof -
  have e: "enrichEach C ord p 0 xs = enrichEach C ord' p' 0 xs \<and> enrichEach C ord p 0 xs \<noteq> None"
    using enrichEach_indep[of xs C ord ord' p 0 p' 0] enrichArg_indep[OF o o'] by blast
  from e have "enrichEach C ord p 0 xs \<noteq> None" by (rule conjunct2)
  then obtain ys where ys1: "enrichEach C ord p 0 xs = Some ys" by blast
  with e have ys: "enrichEach C ord p 0 xs = Some ys" "enrichEach C ord' p' 0 xs = Some ys"
    by simp_all
  have l: "length ys = length xs" using ys(1) by (rule enrichEach_length)
  show ?thesis
    using ys promise_all_settles[OF o l] promise_all_settles[OF o' l] by (simp add: enrichArgs_def)
qed

lemma annotated_enrichArg:
  assumes o: "settlesAll ord"
  shows "enrichArg C ord p x = Some y \<Longrightarrow> annotated x y"
proof (induction x arbitrary: p y)
  case (VArr xs)
  from enrichArgs_positional[OF o, of C p xs] obtain ys where
    ys: "enrichArgs C ord p xs = Some ys" "length ys = length xs"
    "\<forall>j<length xs. enrichArg C ord (p @ [j]) (xs ! j) = Some (ys ! j)" by blast
  from VArr.prems[unfolded enrichArg_VArr] ys(1) have y: "y = VArr ys" by simp
  have "list_all2 annotated xs ys"
    unfolding list_all2_conv_all_nth using ys(2,3) VArr.IH by (metis nth_mem)
  then show ?case by (simp add: y)
next
  case (VObj a)
  then show ?case using annotated_enrichObject[of a C] by simp
qed auto


lemma enrichArgs_eq_enrichEach:
  assumes "settlesAll ord"
  shows "enrichArgs C ord p xs = enrichEach C ord p 0 xs"
proof -
  from enrichArgs_positional[OF assms, of C p xs] obtain ys where
    ys: "enrichArgs C ord p xs = Some ys" by blast
  then obtain zs where zs: "enrichEach C ord p 0 xs = Some zs"
    by (auto simp: enrichArgs_def split: option.splits)
  then have "length zs = length xs" by (rule enrichEach_length)
  from promise_all_settles[OF assms this] zs show ?thesis by (simp add: enrichArgs_def)
qed

lemma settlesAll_inOrder: "settlesAll inOrder"
  by (simp add: settlesAll_def inOrder_def)

lemma settlesAll_reverseOrder: "settlesAll reverseOrder"
  by (simp add: settlesAll_def reverseOrder_def)

lemma enrichObject_fails:
  "nestedCall a = Some (t, d) \<Longrightarrow> innerFails C t d \<Longrightarrow> enrichObject C a = VObj a"
  by (auto simp: enrichObject_def innerFails_def split: sum.splits option.splits)

lemma enrichObject_decodes:
  "nestedCall a = Some (t, d) \<Longrightarrow> autoload C ProviderOnly t = Inr (Some abi) \<Longrightarrow>
   decodeFunctionData C abi d = Inr (fn, as) \<Longrightarrow>
   enrichObject C a = VObj (obj_set a ''decodedCall'' (decodedCall_js fn as (abiInputs abi fn)))"
  by (simp add: enrichObject_def)

lemma node_at_enrichArgs:
  assumes o: "settlesAll ord"
  shows "enrichArgs C ord q xs = Some ys \<Longrightarrow> node_at xs path = Some (VObj a) \<Longrightarrow>
         node_at ys path = Some (enrichObject C a)"
proof (induction xs path arbitrary: ys q rule: node_at.induct)
  case (1 xs)
  then show ?case by simp
next
  case (2 xs i)
  from enrichArgs_positional[OF o, of C q xs] "2.prems"(1)
  have l: "length ys = length xs"
    and n: "\<forall>j<length xs. enrichArg C ord (q @ [j]) (xs ! j) = Some (ys ! j)" by auto
  from "2.prems"(2) have i: "i < length xs" and x: "xs ! i = VObj a"
    by (auto split: if_splits)
  from n i x have "ys ! i = enrichObject C a" by auto
  with i l show ?case by simp
next
  case (3 xs i j p)
  from enrichArgs_positional[OF o, of C q xs] "3.prems"(1)
  have l: "length ys = length xs"
    and n: "\<forall>k<length xs. enrichArg C ord (q @ [k]) (xs ! k) = Some (ys ! k)" by auto
  from "3.prems"(2) obtain zs where i: "i < length xs" and x: "xs ! i = VArr zs"
    and z: "node_at zs (j # p) = Some (VObj a)"
    by (auto split: if_splits jsval.splits)
  from n i x have "enrichArg C ord (q @ [i]) (VArr zs) = Some (ys ! i)" by auto
  then obtain zs' where e: "enrichArgs C ord (q @ [i]) zs = Some zs'" and y: "ys ! i = VArr zs'"
    unfolding enrichArg_VArr by auto
  from "3.IH"[OF i x e z] have "node_at zs' (j # p) = Some (enrichObject C a)" .
  with i l y show ?case by simp
qed

lemma nestedCall_iff:
  "nestedCall a = Some (t, d) \<longleftrightarrow>
     t = js_or (field a ''target'') (field a ''to'') \<and> truthy t \<and>
     js_or (field a ''callData'') (field a ''data'') = VStr d \<and> isHex d \<and> d \<noteq> ''0x''"
  by (cases "js_or (field a ''callData'') (field a ''data'')")
     (auto simp: nestedCall_def isHex_any_def Let_def isHex_def)

text \<open>
  Claim C5, as amended. The enrichment walks the arguments and, to any depth, the
  elements of arrays. Every object reached that way is passed to the object branch: when
  its \<open>target\<close> or \<open>to\<close> is truthy and its \<open>callData\<close> or \<open>data\<close> is a hex string
  other than \<open>0x\<close>, its own target is resolved afresh, and when the resolved interface
  decodes the data the object gets a \<open>decodedCall\<close> annotation and keeps its other
  fields. The arguments of the decoded call are attached as the decoder returned them, and
  an object that is no candidate is returned as it is: the walk enters neither the
  arguments of a decoded nested call nor the fields of an object.
\<close>

theorem enrichment_through_arrays:
  assumes "settlesAll ord"
  shows "(\<exists>ys. enrichArgs C ord q xs = Some ys \<and>
            (\<forall>path a. node_at xs path = Some (VObj a) \<longrightarrow>
                node_at ys path = Some (enrichObject C a)))
     \<and> (nestedCall a = Some (t, d) \<longleftrightarrow>
           t = js_or (field a ''target'') (field a ''to'') \<and> truthy t \<and>
           js_or (field a ''callData'') (field a ''data'') = VStr d \<and> isHex d \<and> d \<noteq> ''0x'')
     \<and> (nestedCall a = Some (t, d) \<and> autoload C ProviderOnly t = Inr (Some abi) \<and>
          decodeFunctionData C abi d = Inr (fn, as) \<longrightarrow>
            enrichObject C a = VObj (obj_set a ''decodedCall'' (decodedCall_js fn as (abiInputs abi fn))))
     \<and> field (obj_set a ''decodedCall'' v) ''decodedCall'' = v
     \<and> (\<forall>k. k \<noteq> ''decodedCall'' \<longrightarrow> field (obj_set a ''decodedCall'' v) k = field a k)
     \<and> field_of (decodedCall_js fn as ins) ''args'' =
          (case as of None \<Rightarrow> VUndefined | Some zs \<Rightarrow> VArr zs)
     \<and> (nestedCall a = None \<longrightarrow> enrichObject C a = VObj a)"
proof -
  from enrichArgs_positional[OF assms, of C q xs] obtain ys where
    ys: "enrichArgs C ord q xs = Some ys" by blast
  have 1: "\<exists>ys. enrichArgs C ord q xs = Some ys \<and>
            (\<forall>path a. node_at xs path = Some (VObj a) \<longrightarrow>
                node_at ys path = Some (enrichObject C a))"
    using ys node_at_enrichArgs[OF assms ys] by blast
  have 6: "field_of (decodedCall_js fn as ins) ''args'' =
          (case as of None \<Rightarrow> VUndefined | Some zs \<Rightarrow> VArr zs)"
    by (simp add: decodedCall_js_def field_of_def field_def)
  have 7: "nestedCall a = None \<longrightarrow> enrichObject C a = VObj a"
    by (simp add: enrichObject_def)
  from 1 nestedCall_iff[of a t d] enrichObject_decodes[of a t d C abi fn as]
    field_obj_set[of a "''decodedCall''" v] field_obj_set_other[of _ "''decodedCall''" a v] 6 7
  show ?thesis by blast
qed


lemmas example_defs = exampleCollab_def exampleAbi_def enrichObject_def nestedCall_def field_def
  js_or_def isHex_any_def isHex_def is_radix_digit_def digit_of_def abiInputs_def abiFunction_def
  decodedCall_js_def obj_set_def Let_def

lemma example_transfer:
  "enrichObject exampleCollab [(''target'', VStr ''0xB''), (''callData'', VStr ''0xbbbbbbbb'')] =
   VObj [(''target'', VStr ''0xB''), (''callData'', VStr ''0xbbbbbbbb''),
         (''decodedCall'', VObj [(''functionName'', VStr ''transfer''),
            (''args'', VArr [VStr ''0xD'', VBigInt 5]),
            (''inputs'', VInputs [AbiParameter ''address'' (Some ''to'') None,
                                   AbiParameter ''uint256'' (Some ''amount'') None])])]"
  by (simp add: example_defs)

lemma example_execute:
  "enrichObject exampleCollab [(''target'', VStr ''0xA''), (''callData'', VStr ''0xaaaaaaaa'')] =
   VObj [(''target'', VStr ''0xA''), (''callData'', VStr ''0xaaaaaaaa''),
         (''decodedCall'', VObj [(''functionName'', VStr ''execute''),
            (''args'', VArr [VObj [(''to'', VStr ''0xB''), (''data'', VStr ''0xbbbbbbbb'')]]),
            (''inputs'', VInputs [AbiParameter ''tuple'' (Some ''call'')
               (Some [AbiParameter ''address'' (Some ''to'') None,
                      AbiParameter ''bytes'' (Some ''data'') None])])])]"
  by (simp add: example_defs)

lemma example_inner:
  "enrichObject exampleCollab [(''to'', VStr ''0xB''), (''data'', VStr ''0xbbbbbbbb'')] =
   VObj [(''to'', VStr ''0xB''), (''data'', VStr ''0xbbbbbbbb''),
         (''decodedCall'', VObj [(''functionName'', VStr ''transfer''),
            (''args'', VArr [VStr ''0xD'', VBigInt 5]),
            (''inputs'', VInputs [AbiParameter ''address'' (Some ''to'') None,
                                   AbiParameter ''uint256'' (Some ''amount'') None])])]"
  by (simp add: example_defs)

theorem enrichment_through_arrays_witness:
  "node_at (the (enrichArgs exampleCollab reverseOrder []
       [VBigInt 7,
        VArr [VArr [VStr ''0xff'',
                    VObj [(''target'', VStr ''0xB''), (''callData'', VStr ''0xbbbbbbbb'')]]]]))
     [1, 0, 1] =
   Some (VObj [(''target'', VStr ''0xB''), (''callData'', VStr ''0xbbbbbbbb''),
         (''decodedCall'', VObj [(''functionName'', VStr ''transfer''),
            (''args'', VArr [VStr ''0xD'', VBigInt 5]),
            (''inputs'', VInputs [AbiParameter ''address'' (Some ''to'') None,
                                   AbiParameter ''uint256'' (Some ''amount'') None])])])"
proof -
  let ?a = "[(''target'', VStr ''0xB''), (''callData'', VStr ''0xbbbbbbbb'')]"
  let ?xs = "[VBigInt 7, VArr [VArr [VStr ''0xff'', VObj ?a]]]"
  have n: "node_at ?xs [1, 0, 1] = Some (VObj ?a)" by simp
  from enrichment_through_arrays[OF settlesAll_reverseOrder, of exampleCollab "[]" ?xs]
  obtain ys where ys: "enrichArgs exampleCollab reverseOrder [] ?xs = Some ys"
    and p: "\<forall>path a. node_at ?xs path = Some (VObj a) \<longrightarrow>
                node_at ys path = Some (enrichObject exampleCollab a)"
    by blast
  from p n have "node_at ys [1, 0, 1] = Some (enrichObject exampleCollab ?a)" by blast
  then show ?thesis by (simp only: ys option.sel example_transfer)
qed

text \<open>
  Claim C5 as stated reaches a candidate at any depth, the arguments of a decoded nested
  call included. Here the decoded \<open>execute\<close> call holds a candidate, and an object holds
  one in a field: both would decode (second conjunct), and both are left without an
  annotation.
\<close>

theorem nested_call_arguments_not_walked_counterexample:
  "enrichArgs exampleCollab inOrder []
     [VObj [(''target'', VStr ''0xA''), (''callData'', VStr ''0xaaaaaaaa'')],
      VObj [(''inner'', VObj [(''to'', VStr ''0xB''), (''data'', VStr ''0xbbbbbbbb'')])]] =
   Some [VObj [(''target'', VStr ''0xA''), (''callData'', VStr ''0xaaaaaaaa''),
           (''decodedCall'', VObj [(''functionName'', VStr ''execute''),
              (''args'', VArr [VObj [(''to'', VStr ''0xB''), (''data'', VStr ''0xbbbbbbbb'')]]),
              (''inputs'', VInputs [AbiParameter ''tuple'' (Some ''call'')
                 (Some [AbiParameter ''address'' (Some ''to'') None,
                        AbiParameter ''bytes'' (Some ''data'') None])])])],
         VObj [(''inner'', VObj [(''to'', VStr ''0xB''), (''data'', VStr ''0xbbbbbbbb'')])]]
   \<and> enrichObject exampleCollab [(''to'', VStr ''0xB''), (''data'', VStr ''0xbbbbbbbb'')] =
     VObj [(''to'', VStr ''0xB''), (''data'', VStr ''0xbbbbbbbb''),
         (''decodedCall'', VObj [(''functionName'', VStr ''transfer''),
            (''args'', VArr [VStr ''0xD'', VBigInt 5]),
            (''inputs'', VInputs [AbiParameter ''address'' (Some ''to'') None,
                                   AbiParameter ''uint256'' (Some ''amount'') None])])]"
proof -
  have "enrichObject exampleCollab [(''inner'', VObj [(''to'', VStr ''0xB''), (''data'', VStr ''0xbbbbbbbb'')])] =
        VObj [(''inner'', VObj [(''to'', VStr ''0xB''), (''data'', VStr ''0xbbbbbbbb'')])]"
    by (simp add: example_defs)
  then show ?thesis
    by (simp add: enrichArgs_eq_enrichEach[OF settlesAll_inOrder] example_execute example_inner)
qed

text \<open>
  Claim C6. When every promise settles, whatever the order, the enriched sequence has the
  length of the arguments, position \<open>i\<close> holds argument \<open>i\<close>, possibly annotated, and
  the result is the same for every order of completion.
\<close>

theorem enrichArgs_keeps_positions:
  assumes "settlesAll ord"
  shows "\<exists>ys. enrichArgs C ord p xs = Some ys \<and> length ys = length xs \<and>
           (\<forall>i<length xs. annotated (xs ! i) (ys ! i)) \<and>
           (\<forall>ord' p'. settlesAll ord' \<longrightarrow> enrichArgs C ord' p' xs = Some ys)"
proof -
  from enrichArgs_positional[OF assms, of C p xs] obtain ys where
    ys: "enrichArgs C ord p xs = Some ys" "length ys = length xs"
    "\<forall>j<length xs. enrichArg C ord (p @ [j]) (xs ! j) = Some (ys ! j)" by blast
  have "\<forall>i<length xs. annotated (xs ! i) (ys ! i)"
    using ys(3) annotated_enrichArg[OF assms] by blast
  moreover have "\<forall>ord' p'. settlesAll ord' \<longrightarrow> enrichArgs C ord' p' xs = Some ys"
    using enrichArgs_indep[OF _ assms, of _ C _ xs p] ys(1) by simp
  ultimately show ?thesis using ys(1,2) by blast
qed

theorem enrichArgs_keeps_positions_witness:
  "enrichArgs exampleCollab reverseOrder []
     [VBigInt 1, VObj [(''target'', VStr ''0xB''), (''callData'', VStr ''0xbbbbbbbb'')], VStr ''0xff''] =
   Some [VBigInt 1,
         VObj [(''target'', VStr ''0xB''), (''callData'', VStr ''0xbbbbbbbb''),
           (''decodedCall'', VObj [(''functionName'', VStr ''transfer''),
              (''args'', VArr [VStr ''0xD'', VBigInt 5]),
              (''inputs'', VInputs [AbiParameter ''address'' (Some ''to'') None,
                                     AbiParameter ''uint256'' (Some ''amount'') None])])],
         VStr ''0xff'']"
proof -
  let ?xs = "[VBigInt 1, VObj [(''target'', VStr ''0xB''), (''callData'', VStr ''0xbbbbbbbb'')], VStr ''0xff'']"
  from enrichArgs_keeps_positions[OF settlesAll_inOrder, of exampleCollab "[]" ?xs]
  obtain ys where ys: "enrichArgs exampleCollab inOrder [] ?xs = Some ys"
    and a: "\<forall>ord' p'. settlesAll ord' \<longrightarrow> enrichArgs exampleCollab ord' p' ?xs = Some ys"
    by blast
  from a settlesAll_reverseOrder have r: "enrichArgs exampleCollab reverseOrder [] ?xs = Some ys"
    by blast
  have "enrichArgs exampleCollab inOrder [] ?xs = Some [VBigInt 1,
         VObj [(''target'', VStr ''0xB''), (''callData'', VStr ''0xbbbbbbbb''),
           (''decodedCall'', VObj [(''functionName'', VStr ''transfer''),
              (''args'', VArr [VStr ''0xD'', VBigInt 5]),
              (''inputs'', VInputs [AbiParameter ''address'' (Some ''to'') None,
                                     AbiParameter ''uint256'' (Some ''amount'') None])])],
         VStr ''0xff'']"
    by (simp add: enrichArgs_eq_enrichEach[OF settlesAll_inOrder] example_transfer)
  with ys r show ?thesis by simp
qed


lemma list3:
  "length ys = Suc (Suc (Suc 0)) \<Longrightarrow> ys = [ys ! 0, ys ! Suc 0, ys ! Suc (Suc 0)]"
  by (auto simp: length_Suc_conv)

text \<open>
  Claim C7. When the top-level call resolves and decodes, the query returns the decoded
  call whatever happens below: a nested candidate, at any depth of arrays, whose resolution
  throws or finds no interface, or whose data does not decode, is returned as it came, and
  each position of the result is the enrichment of the argument at that position alone, so
  that replacing one argument leaves the other positions as they are.
\<close>

theorem nested_failure_degrades:
  assumes "settlesAll ord" and "truthy (sender op)"
    and "callData op \<noteq> []" and "callData op \<noteq> ''0x''"
    and "autoload C WithLoaders (sender op) = Inr (Some abi)"
    and "decodeFunctionData C abi (callData op) = Inr (fn, Some xs)"
  shows "\<exists>ys. decodeCallData C ord (Some op) True =
               Some (Some \<lparr> functionName = fn, args = Some ys, inputs = abiInputs abi fn \<rparr>)
     \<and> length ys = length xs
     \<and> (\<forall>i<length xs. enrichArg C ord [i] (xs ! i) = Some (ys ! i))
     \<and> (\<forall>path a t d. node_at xs path = Some (VObj a) \<and> nestedCall a = Some (t, d) \<and>
            innerFails C t d \<longrightarrow> node_at ys path = Some (VObj a))
     \<and> (\<forall>i z. i < length xs \<longrightarrow>
            (\<exists>zs. enrichArgs C ord [] (xs[i := z]) = Some zs \<and>
                  (\<forall>j<length xs. j \<noteq> i \<longrightarrow> zs ! j = ys ! j)))"
proof -
  from enrichArgs_positional[OF assms(1), of C "[]" xs] obtain ys where
    ys: "enrichArgs C ord [] xs = Some ys" and l: "length ys = length xs"
    and n: "\<forall>j<length xs. enrichArg C ord [j] (xs ! j) = Some (ys ! j)" by auto
  have 1: "decodeCallData C ord (Some op) True =
               Some (Some \<lparr> functionName = fn, args = Some ys, inputs = abiInputs abi fn \<rparr>)"
    using assms(2-6) ys by (simp add: decodeCallData_def)
  have 4: "\<forall>path a t d. node_at xs path = Some (VObj a) \<and> nestedCall a = Some (t, d) \<and>
            innerFails C t d \<longrightarrow> node_at ys path = Some (VObj a)"
    using node_at_enrichArgs[OF assms(1) ys] enrichObject_fails by metis
  have 5: "\<exists>zs. enrichArgs C ord [] (xs[i := z]) = Some zs \<and>
                  (\<forall>j<length xs. j \<noteq> i \<longrightarrow> zs ! j = ys ! j)" if "i < length xs" for i z
  proof -
    from enrichArgs_positional[OF assms(1), of C "[]" "xs[i := z]"] obtain zs where
      zs: "enrichArgs C ord [] (xs[i := z]) = Some zs"
      and m: "\<forall>j<length xs. enrichArg C ord [j] (xs[i := z] ! j) = Some (zs ! j)" by auto
    have "zs ! j = ys ! j" if "j < length xs" "j \<noteq> i" for j
    proof -
      from m that have "enrichArg C ord [j] (xs ! j) = Some (zs ! j)" by auto
      with n that show ?thesis by auto
    qed
    with zs show ?thesis by blast
  qed
  from 1 l n 4 5 show ?thesis by blast
qed

lemma example_failures:
  "enrichObject exampleCollab [(''to'', VStr ''0xE''), (''data'', VStr ''0xbbbbbbbb'')] =
     VObj [(''to'', VStr ''0xE''), (''data'', VStr ''0xbbbbbbbb'')]"
  "enrichObject exampleCollab [(''to'', VStr ''0xB''), (''data'', VStr ''0xdddddddd'')] =
     VObj [(''to'', VStr ''0xB''), (''data'', VStr ''0xdddddddd'')]"
  by (simp_all add: example_defs)

theorem nested_failure_degrades_witness:
  "decodeCallData exampleCollab reverseOrder (Some exampleOp) True =
     Some (Some \<lparr> functionName = ''batch'',
       args = Some [VObj [(''to'', VStr ''0xE''), (''data'', VStr ''0xbbbbbbbb'')],
                    VObj [(''to'', VStr ''0xB''), (''data'', VStr ''0xbbbbbbbb''),
                      (''decodedCall'', VObj [(''functionName'', VStr ''transfer''),
                         (''args'', VArr [VStr ''0xD'', VBigInt 5]),
                         (''inputs'', VInputs [AbiParameter ''address'' (Some ''to'') None,
                                                AbiParameter ''uint256'' (Some ''amount'') None])])],
                    VObj [(''to'', VStr ''0xB''), (''data'', VStr ''0xdddddddd'')]],
       inputs = None \<rparr>)"
proof -
  let ?xs = "[VObj [(''to'', VStr ''0xE''), (''data'', VStr ''0xbbbbbbbb'')],
              VObj [(''to'', VStr ''0xB''), (''data'', VStr ''0xbbbbbbbb'')],
              VObj [(''to'', VStr ''0xB''), (''data'', VStr ''0xdddddddd'')]]"
  have h: "truthy (sender exampleOp)" "callData exampleOp \<noteq> []" "callData exampleOp \<noteq> ''0x''"
    "autoload exampleCollab WithLoaders (sender exampleOp) = Inr (Some exampleAbi)"
    "decodeFunctionData exampleCollab exampleAbi (callData exampleOp) = Inr (''batch'', Some ?xs)"
    by (simp_all add: exampleOp_def exampleCollab_def)
  have i: "abiInputs exampleAbi ''batch'' = None"
    by (simp add: abiInputs_def abiFunction_def exampleAbi_def)
  from nested_failure_degrades[OF settlesAll_reverseOrder h]
  obtain ys where d: "decodeCallData exampleCollab reverseOrder (Some exampleOp) True =
               Some (Some \<lparr> functionName = ''batch'', args = Some ys,
                             inputs = abiInputs exampleAbi ''batch'' \<rparr>)"
    and l: "length ys = length ?xs"
    and n: "\<forall>i<length ?xs. enrichArg exampleCollab reverseOrder [i] (?xs ! i) = Some (ys ! i)"
    by blast
  have "ys ! 0 = enrichObject exampleCollab [(''to'', VStr ''0xE''), (''data'', VStr ''0xbbbbbbbb'')]"
    using n[rule_format, of 0] by simp
  moreover have "ys ! Suc 0 = enrichObject exampleCollab [(''to'', VStr ''0xB''), (''data'', VStr ''0xbbbbbbbb'')]"
    using n[rule_format, of "Suc 0"] by simp
  moreover have "ys ! Suc (Suc 0) = enrichObject exampleCollab [(''to'', VStr ''0xB''), (''data'', VStr ''0xdddddddd'')]"
    using n[rule_format, of "Suc (Suc 0)"] by simp
  moreover from l have "ys = [ys ! 0, ys ! Suc 0, ys ! Suc (Suc 0)]" by (intro list3) simp
  ultimately have "ys = [enrichObject exampleCollab [(''to'', VStr ''0xE''), (''data'', VStr ''0xbbbbbbbb'')],
      enrichObject exampleCollab [(''to'', VStr ''0xB''), (''data'', VStr ''0xbbbbbbbb'')],
      enrichObject exampleCollab [(''to'', VStr ''0xB''), (''data'', VStr ''0xdddddddd'')]]"
    by simp
  then show ?thesis by (simp only: d i example_failures example_inner)
qed

text \<open>
  Claim C8. The lookup of a function's parameter types returns the first item of the
  interface, in declaration order, that is a function with exactly the decoded name, and
  nothing when there is none. Whenever the top-level call resolves and decodes, with or
  without arguments, the query returns a result whose \<open>inputs\<close> are those of that item;
  the annotation of a decoded nested call takes its \<open>inputs\<close> from the same lookup in
  the nested interface.
\<close>

theorem abiFunction_first_match:
  "(abiFunction abi fn = Some item \<longleftrightarrow>
      (\<exists>i<length abi. abi ! i = item \<and> item_type item = ''function'' \<and> item_name item = Some fn \<and>
         (\<forall>j<i. \<not> (item_type (abi ! j) = ''function'' \<and> item_name (abi ! j) = Some fn))))
   \<and> (abiFunction abi fn = None \<longleftrightarrow>
        \<not> (\<exists>item \<in> set abi. item_type item = ''function'' \<and> item_name item = Some fn))
   \<and> (settlesAll ord \<and> truthy (sender op) \<and> callData op \<noteq> [] \<and> callData op \<noteq> ''0x'' \<and>
        autoload C WithLoaders (sender op) = Inr (Some abi) \<and>
        decodeFunctionData C abi (callData op) = Inr (fn, as) \<longrightarrow>
        (\<exists>r. decodeCallData C ord (Some op) True = Some (Some r) \<and> functionName r = fn \<and>
             inputs r = (case abiFunction abi fn of None \<Rightarrow> None | Some item \<Rightarrow> item_inputs item)))
   \<and> (decodeCallData C ord (Some op) client = Some (Some r) \<and>
        autoload C WithLoaders (sender op) = Inr (Some abi) \<and>
        decodeFunctionData C abi (callData op) = Inr (fn, as) \<longrightarrow>
        inputs r = (case abiFunction abi fn of None \<Rightarrow> None | Some item \<Rightarrow> item_inputs item))
   \<and> (nestedCall a = Some (t, d) \<and> autoload C ProviderOnly t = Inr (Some abi) \<and>
        decodeFunctionData C abi d = Inr (fn, as) \<longrightarrow>
        field_of (field_of (enrichObject C a) ''decodedCall'') ''inputs'' =
          (case abiFunction abi fn of
             None \<Rightarrow> VUndefined
           | Some item \<Rightarrow> (case item_inputs item of None \<Rightarrow> VUndefined | Some ps \<Rightarrow> VInputs ps)))"
proof -
  have 1: "abiFunction abi fn = Some item \<longleftrightarrow>
      (\<exists>i<length abi. abi ! i = item \<and> item_type item = ''function'' \<and> item_name item = Some fn \<and>
         (\<forall>j<i. \<not> (item_type (abi ! j) = ''function'' \<and> item_name (abi ! j) = Some fn)))"
    unfolding abiFunction_def find_Some_iff by blast
  have 2: "abiFunction abi fn = None \<longleftrightarrow>
        \<not> (\<exists>item \<in> set abi. item_type item = ''function'' \<and> item_name item = Some fn)"
    unfolding abiFunction_def find_None_iff by blast
  have 3: "inputs r = (case abiFunction abi fn of None \<Rightarrow> None | Some item \<Rightarrow> item_inputs item)"
    if "decodeCallData C ord (Some op) client = Some (Some r) \<and>
        autoload C WithLoaders (sender op) = Inr (Some abi) \<and>
        decodeFunctionData C abi (callData op) = Inr (fn, as)"
    using that by (auto simp: decodeCallData_def abiInputs_def split: if_splits option.splits)
  have 5: "\<exists>r. decodeCallData C ord (Some op) True = Some (Some r) \<and> functionName r = fn \<and>
             inputs r = (case abiFunction abi fn of None \<Rightarrow> None | Some item \<Rightarrow> item_inputs item)"
    if h: "settlesAll ord \<and> truthy (sender op) \<and> callData op \<noteq> [] \<and> callData op \<noteq> ''0x'' \<and>
        autoload C WithLoaders (sender op) = Inr (Some abi) \<and>
        decodeFunctionData C abi (callData op) = Inr (fn, as)"
  proof (cases as)
    case None
    with h have "decodeCallData C ord (Some op) True =
        Some (Some \<lparr> functionName = fn, args = None, inputs = abiInputs abi fn \<rparr>)"
      by (simp add: decodeCallData_def)
    then show ?thesis by (simp add: abiInputs_def)
  next
    case (Some xs)
    from h have o: "settlesAll ord" by simp
    from enrichArgs_positional[OF o, of C "[]" xs] obtain ys where
      "enrichArgs C ord [] xs = Some ys" by blast
    with h Some have "decodeCallData C ord (Some op) True =
        Some (Some \<lparr> functionName = fn, args = Some ys, inputs = abiInputs abi fn \<rparr>)"
      by (simp add: decodeCallData_def)
    then show ?thesis by (simp add: abiInputs_def)
  qed
  have 4: "field_of (field_of (enrichObject C a) ''decodedCall'') ''inputs'' =
          (case abiFunction abi fn of
             None \<Rightarrow> VUndefined
           | Some item \<Rightarrow> (case item_inputs item of None \<Rightarrow> VUndefined | Some ps \<Rightarrow> VInputs ps))"
    if "nestedCall a = Some (t, d) \<and> autoload C ProviderOnly t = Inr (Some abi) \<and>
        decodeFunctionData C abi d = Inr (fn, as)"
  proof -
    from that have "enrichObject C a =
        VObj (obj_set a ''decodedCall'' (decodedCall_js fn as (abiInputs abi fn)))"
      by (simp add: enrichObject_decodes)
    then have "field_of (enrichObject C a) ''decodedCall'' = decodedCall_js fn as (abiInputs abi fn)"
      by (simp add: field_of_def field_obj_set)
    then show ?thesis
      by (simp add: decodedCall_js_def field_of_def field_def abiInputs_def split: option.splits)
  qed
  from 1 2 3 4 5 show ?thesis by blast
qed

theorem abiFunction_first_match_witness:
  "abiFunction exampleAbi ''transfer'' =
     Some \<lparr> item_type = ''function'', item_name = Some ''transfer'',
            item_inputs = Some [AbiParameter ''address'' (Some ''to'') None,
                                AbiParameter ''uint256'' (Some ''amount'') None] \<rparr>
   \<and> (\<exists>r. decodeCallData exampleCollab reverseOrder
             (Some (exampleOp \<lparr> callData := ''0xbbbbbbbb'' \<rparr>)) True = Some (Some r) \<and>
           functionName r = ''transfer'' \<and>
           inputs r = Some [AbiParameter ''address'' (Some ''to'') None,
                            AbiParameter ''uint256'' (Some ''amount'') None])
   \<and> field_of (field_of (enrichObject exampleCollab
          [(''to'', VStr ''0xB''), (''data'', VStr ''0xbbbbbbbb'')]) ''decodedCall'') ''inputs'' =
       VInputs [AbiParameter ''address'' (Some ''to'') None,
                AbiParameter ''uint256'' (Some ''amount'') None]"
proof -
  let ?item = "\<lparr> item_type = ''function'', item_name = Some ''transfer'',
            item_inputs = Some [AbiParameter ''address'' (Some ''to'') None,
                                AbiParameter ''uint256'' (Some ''amount'') None] \<rparr>"
  let ?op = "exampleOp \<lparr> callData := ''0xbbbbbbbb'' \<rparr>"
  let ?a = "[(''to'', VStr ''0xB''), (''data'', VStr ''0xbbbbbbbb'')]"
  have "2 < length exampleAbi \<and> exampleAbi ! 2 = ?item \<and> item_type ?item = ''function'' \<and>
        item_name ?item = Some ''transfer'' \<and>
        (\<forall>j<2. \<not> (item_type (exampleAbi ! j) = ''function'' \<and>
                    item_name (exampleAbi ! j) = Some ''transfer''))"
    by (simp add: exampleAbi_def less_Suc_eq numeral_2_eq_2 nth_Cons')
  then have "\<exists>i<length exampleAbi. exampleAbi ! i = ?item \<and> item_type ?item = ''function'' \<and>
        item_name ?item = Some ''transfer'' \<and>
        (\<forall>j<i. \<not> (item_type (exampleAbi ! j) = ''function'' \<and>
                    item_name (exampleAbi ! j) = Some ''transfer''))"
    by blast
  with abiFunction_first_match[of exampleAbi "''transfer''" ?item]
  have f: "abiFunction exampleAbi ''transfer'' = Some ?item" by blast
  have h: "settlesAll reverseOrder \<and> truthy (sender ?op) \<and> callData ?op \<noteq> [] \<and>
        callData ?op \<noteq> ''0x'' \<and>
        autoload exampleCollab WithLoaders (sender ?op) = Inr (Some exampleAbi) \<and>
        decodeFunctionData exampleCollab exampleAbi (callData ?op) =
          Inr (''transfer'', Some [VStr ''0xD'', VBigInt 5])"
    by (simp add: settlesAll_reverseOrder exampleOp_def exampleCollab_def)
  from abiFunction_first_match[of exampleAbi "''transfer''" _ reverseOrder ?op exampleCollab
      "Some [VStr ''0xD'', VBigInt 5]"] h
  have t: "\<exists>r. decodeCallData exampleCollab reverseOrder (Some ?op) True = Some (Some r) \<and>
      functionName r = ''transfer'' \<and>
      inputs r = (case abiFunction exampleAbi ''transfer'' of None \<Rightarrow> None
                  | Some item \<Rightarrow> item_inputs item)"
    by blast
  have n: "nestedCall ?a = Some (VStr ''0xB'', ''0xbbbbbbbb'') \<and>
      autoload exampleCollab ProviderOnly (VStr ''0xB'') = Inr (Some exampleAbi) \<and>
      decodeFunctionData exampleCollab exampleAbi ''0xbbbbbbbb'' =
        Inr (''transfer'', Some [VStr ''0xD'', VBigInt 5])"
    by (simp add: nestedCall_iff js_or_def field_def isHex_def is_radix_digit_def digit_of_def
        exampleCollab_def)
  from abiFunction_first_match[of exampleAbi "''transfer''" _ _ _ exampleCollab
      "Some [VStr ''0xD'', VBigInt 5]" _ _ ?a "VStr ''0xB''" "''0xbbbbbbbb''"] n
  have e: "field_of (field_of (enrichObject exampleCollab ?a) ''decodedCall'') ''inputs'' =
          (case abiFunction exampleAbi ''transfer'' of
             None \<Rightarrow> VUndefined
           | Some item \<Rightarrow> (case item_inputs item of None \<Rightarrow> VUndefined | Some ps \<Rightarrow> VInputs ps))"
    by blast
  from f t e show ?thesis by (simp add: f)
qed

end
